theory Spec2Isabelle
  imports Main "HOL-Library.Sublist"
begin

section \<open>Strings and values of the host language\<close>

text \<open>
  The export routine \<open>createExport\<close> of \<open>scripts/create-export\<close> is a JavaScript function.
  Its strings are modelled by \<open>string\<close>: one \<open>char\<close> per code unit, for the code units
  \<open>0x00\<close> to \<open>0xFF\<close>. A byte buffer is modelled by the text it decodes to (the UTF-8 codec
  is Node's, \<open>Buffer.toString\<close> and \<open>Buffer.from\<close>).
\<close>

abbreviation LF :: char where "LF \<equiv> CHR 0x0A"

abbreviation CR :: char where "CR \<equiv> CHR 0x0D"

abbreviation DQ :: char where "DQ \<equiv> CHR 0x22"

abbreviation COMMA :: char where "COMMA \<equiv> CHR 0x2C"

text \<open>\<open>String.prototype.toLowerCase\<close>, on the code units \<open>0x00\<close> to \<open>0xFF\<close>.\<close>

definition toLowerCase_char :: "char \<Rightarrow> char" where
  "toLowerCase_char c =
     (let n = (of_char c :: nat)
      in if (65 \<le> n \<and> n \<le> 90) \<or> (192 \<le> n \<and> n \<le> 222 \<and> n \<noteq> 215)
         then char_of (n + 32) else c)"

definition toLowerCase :: "string \<Rightarrow> string" where
  "toLowerCase s = map toLowerCase_char s"

text \<open>
  The canonical form under which a regular expression with the flag \<open>i\<close> compares two
  code units (the upper case, where that is one code unit of the same range).
\<close>

definition canonicalize :: "char \<Rightarrow> char" where
  "canonicalize c =
     (let n = (of_char c :: nat)
      in if (97 \<le> n \<and> n \<le> 122) \<or> (224 \<le> n \<and> n \<le> 254 \<and> n \<noteq> 247)
         then char_of (n - 32) else c)"

definition endsWith :: "string \<Rightarrow> string \<Rightarrow> bool" where
  "endsWith s suf = (length suf \<le> length s \<and> drop (length s - length suf) s = suf)"

definition startsWith :: "string \<Rightarrow> string \<Rightarrow> bool" where
  "startsWith s p = (take (length p) s = p)"

text \<open>
  \<open>s.replace(/<lit>$/i, repl)\<close> for a literal \<open>lit\<close>: the only place where the pattern can
  match is the end of \<open>s\<close>; without a match \<open>s\<close> is returned as it is.
\<close>

definition replace_suffix_i :: "string \<Rightarrow> string \<Rightarrow> string \<Rightarrow> string" where
  "replace_suffix_i lit repl s =
     (if length lit \<le> length s
         \<and> map canonicalize (drop (length s - length lit) s) = map canonicalize lit
      then take (length s - length lit) s @ repl
      else s)"

text \<open>\<open>String.prototype.trim\<close>: the white space among the code units \<open>0x00\<close> to \<open>0xFF\<close>.\<close>

definition is_ws :: "char \<Rightarrow> bool" where
  "is_ws c = ((of_char c :: nat) \<in> {9, 10, 11, 12, 13, 32, 160})"

definition js_trim :: "string \<Rightarrow> string" where
  "js_trim s = rev (dropWhile is_ws (rev (dropWhile is_ws s)))"

fun join :: "string \<Rightarrow> string list \<Rightarrow> string" where
  "join sep [] = []"
| "join sep [x] = x"
| "join sep (x # y # ys) = x @ sep @ join sep (y # ys)"

text \<open>
  A cell of a parsed table. The CSV parser yields strings only; the rows of a workbook
  sheet also hold numbers, booleans and \<open>null\<close>, and are sparse arrays. A number is
  carried as its rendering \<open>String(n)\<close>, which is all the routine reads of it besides its
  truthiness (\<open>0\<close>, \<open>-0\<close> and \<open>NaN\<close>, rendered \<open>0\<close> and \<open>NaN\<close>, are falsy).
  \<open>Absent\<close> is \<open>undefined\<close>: what reading a missing element or an index out of range
  gives; as an element of a row it is a hole of the sparse array.
\<close>

datatype cell = Str string | Num string | Bool bool | Null | Absent

type_synonym row = "cell list"

type_synonym table = "row list"

fun js_String :: "cell \<Rightarrow> string" where
  "js_String (Str s) = s"
| "js_String (Num s) = s"
| "js_String (Bool b) = (if b then ''true'' else ''false'')"
| "js_String Null = ''null''"
| "js_String Absent = ''undefined''"

fun truthy :: "cell \<Rightarrow> bool" where
  "truthy (Str s) = (s \<noteq> [])"
| "truthy (Num s) = (s \<noteq> ''0'' \<and> s \<noteq> ''NaN'')"
| "truthy (Bool b) = b"
| "truthy Null = False"
| "truthy Absent = False"

text \<open>\<open>row[i]\<close>: \<open>undefined\<close> for a negative index and beyond the end of the row.\<close>

definition nth_js :: "row \<Rightarrow> int \<Rightarrow> cell" where
  "nth_js r i = (if 0 \<le> i \<and> i < int (length r) then r ! nat i else Absent)"

text \<open>\<open>Array.prototype.findIndex\<close>: the first index where the test holds, or \<open>-1\<close>.\<close>

fun findIndex_from :: "('a \<Rightarrow> bool) \<Rightarrow> int \<Rightarrow> 'a list \<Rightarrow> int" where
  "findIndex_from p i [] = - 1"
| "findIndex_from p i (x # xs) = (if p x then i else findIndex_from p (i + 1) xs)"

definition findIndex :: "('a \<Rightarrow> bool) \<Rightarrow> 'a list \<Rightarrow> int" where
  "findIndex p xs = findIndex_from p 0 xs"

text \<open>
  \<open>row.filter((_, index) => keep(index))\<close>: \<open>filter\<close> visits the elements that are
  present, so the holes of a sparse row are not in the result.
\<close>

definition filter_index :: "(nat \<Rightarrow> bool) \<Rightarrow> row \<Rightarrow> row" where
  "filter_index keep r =
     map snd (filter (\<lambda>(index, x). x \<noteq> Absent \<and> keep index) (enumerate 0 r))"

section \<open>The CSV parser\<close>

text \<open>
  The loop of \<open>parseCSV\<close> over the code units of the content: \<open>c\<close> is \<open>content[i]\<close> and
  the head of the rest is \<open>content[i + 1]\<close> (\<open>undefined\<close> at the end, which equals no
  character). The equation for the empty rest is the code after the loop.
\<close>

fun parse_loop :: "string list list \<Rightarrow> string list \<Rightarrow> string \<Rightarrow> bool \<Rightarrow> string
                     \<Rightarrow> string list list" where
  "parse_loop rows currentRow currentField insideQuotes [] =
     (if currentField \<noteq> [] \<or> length currentRow > 0
      then rows @ [currentRow @ [currentField]]
      else rows)"
| "parse_loop rows currentRow currentField insideQuotes (c # cs) =
     (let nextChar = (case cs of [] \<Rightarrow> None | d # _ \<Rightarrow> Some d)
      in if c = DQ then
           (if insideQuotes \<and> nextChar = Some DQ
            then parse_loop rows currentRow (currentField @ [DQ]) insideQuotes (tl cs)
            else parse_loop rows currentRow currentField (\<not> insideQuotes) cs)
         else if c = COMMA \<and> \<not> insideQuotes then
           parse_loop rows (currentRow @ [currentField]) [] insideQuotes cs
         else if (c = LF \<or> c = CR) \<and> \<not> insideQuotes then
           (let cs' = (if c = CR \<and> nextChar = Some LF then tl cs else cs)
            in if currentField \<noteq> [] \<or> length currentRow > 0
               then parse_loop (rows @ [currentRow @ [currentField]]) [] [] insideQuotes cs'
               else parse_loop rows currentRow currentField insideQuotes cs')
         else parse_loop rows currentRow (currentField @ [c]) insideQuotes cs)"

definition parseCSV :: "string \<Rightarrow> string list list" where
  "parseCSV content = parse_loop [] [] [] False content"

section \<open>The CSV writer\<close>

text \<open>
  \<open>rowToCSV\<close>: \<open>map\<close> leaves a hole where the row has one and \<open>join\<close> writes a hole as
  the empty string.
\<close>

definition needs_quotes :: "string \<Rightarrow> bool" where
  "needs_quotes fieldStr =
     (COMMA \<in> set fieldStr \<or> DQ \<in> set fieldStr \<or> LF \<in> set fieldStr \<or> CR \<in> set fieldStr)"

definition double_quotes :: "string \<Rightarrow> string" where
  "double_quotes fieldStr = concat (map (\<lambda>c. if c = DQ then [DQ, DQ] else [c]) fieldStr)"

definition field_to_csv :: "cell \<Rightarrow> string" where
  "field_to_csv field =
     (if field = Absent then []
      else let fieldStr = js_String field
           in if needs_quotes fieldStr then [DQ] @ double_quotes fieldStr @ [DQ]
              else fieldStr)"

definition rowToCSV :: "row \<Rightarrow> string" where
  "rowToCSV r = join [COMMA] (map field_to_csv r)"

section \<open>Column pruning and row filtering\<close>

definition prefixes :: "string list" where
  "prefixes = [''Google'', ''Option1'', ''Option2'', ''Option3'', ''Image Src'',
     ''Image Position'', ''Variant Image'', ''Image Alt Text'', ''Unit Price'']"

text \<open>\<open>headers.forEach\<close> visits the headers that are present.\<close>

definition indicesToRemove :: "row \<Rightarrow> nat set" where
  "indicesToRemove headers =
     set (filter (\<lambda>index. headers ! index \<noteq> Absent
                    \<and> list_ex (\<lambda>prefix. startsWith (js_String (headers ! index)) prefix) prefixes)
            [0..<length headers])"

definition filteredRows :: "table \<Rightarrow> table" where
  "filteredRows rows =
     map (\<lambda>r. filter_index (\<lambda>index. index \<notin> indicesToRemove (hd rows)) r) rows"

definition variantSKUIndex :: "row \<Rightarrow> int" where
  "variantSKUIndex headers = findIndex (\<lambda>header. js_String header = ''Variant SKU'') headers"

text \<open>
  The loop over the data rows, with its two variables: the set \<open>handleMap\<close> and the
  array \<open>uniqueRows\<close>.
\<close>

fun keep_rows :: "int \<Rightarrow> table \<Rightarrow> string set \<times> table \<Rightarrow> string set \<times> table" where
  "keep_rows vi [] (handleMap, uniqueRows) = (handleMap, uniqueRows)"
| "keep_rows vi (r # rest) (handleMap, uniqueRows) =
     (let handle = (if truthy (nth_js r 0) then js_trim (js_String (nth_js r 0)) else []);
          rowSKU = (if truthy (nth_js r vi) then js_trim (js_String (nth_js r vi)) else [])
      in if rowSKU \<noteq> []
         then keep_rows vi rest (insert handle handleMap, uniqueRows @ [r])
         else keep_rows vi rest (handleMap, uniqueRows))"

definition transformData :: "table \<Rightarrow> table" where
  "transformData rows =
     (if length rows = 0 then []
      else let fr = filteredRows rows;
               vi = variantSKUIndex (hd fr)
           in snd (keep_rows vi (tl fr) ({}, [hd fr])))"

section \<open>The entry point\<close>

text \<open>
  The argument \<open>file\<close>: a falsy value (\<open>null\<close>, \<open>undefined\<close>), a \<open>Buffer\<close>, a string (a
  path; the empty string is falsy), an object with a truthy property \<open>buffer\<close> (holding
  bytes, or a value that \<open>Buffer.from\<close> rejects), or any other truthy value. The argument
  \<open>filename\<close> is a string or is not one (\<open>None\<close>: \<open>undefined\<close>).
\<close>

datatype js_file = NoFile | BufferFile string | PathFile string
  | HolderFile "string option" | OtherFile

fun provided :: "js_file \<Rightarrow> bool" where
  "provided NoFile = False"
| "provided (PathFile p) = (p \<noteq> [])"
| "provided _ = True"

text \<open>
  The library calls, which are not code of the routine: \<open>fs.readFileSync\<close>, reading a
  workbook (\<open>XLSX.read\<close> and \<open>sheet_to_json\<close> of its first sheet) and writing one
  (\<open>aoa_to_sheet\<close> and \<open>XLSX.write\<close>). \<open>None\<close> is a call that throws.
\<close>

record env =
  readFileSync :: "string \<Rightarrow> string option"
  xlsx_read :: "string \<Rightarrow> table option"
  xlsx_write :: "table \<Rightarrow> string option"

datatype exn = TypeError | FsError | XlsxError

datatype export_result =
    Failure (error: string)
  | Success (filename: string) (buffer: string) (rowCount: int) (data: table)

datatype outcome = Threw exn | Returned export_result

text \<open>The calls made on the way, in order.\<close>

datatype step = ReadFileSync string | BufferFrom | XlsxRead | ParseCSV | TransformData
  | XlsxWrite

datatype 'a flow = Continue 'a | Return export_result | Throw exn

text \<open>The block "Handle different file input types".\<close>

fun fileBuffer_of :: "env \<Rightarrow> js_file \<Rightarrow> step list \<times> string flow" where
  "fileBuffer_of e (BufferFile b) = ([], Continue b)"
| "fileBuffer_of e (PathFile p) =
     ([ReadFileSync p],
      case readFileSync e p of None \<Rightarrow> Throw FsError | Some b \<Rightarrow> Continue b)"
| "fileBuffer_of e (HolderFile src) =
     ([BufferFrom], case src of None \<Rightarrow> Throw TypeError | Some b \<Rightarrow> Continue b)"
| "fileBuffer_of e _ = ([], Return (Failure ''Invalid file format''))"

text \<open>The branch on the format that reads the rows.\<close>

definition read_rows :: "env \<Rightarrow> bool \<Rightarrow> bool \<Rightarrow> string \<Rightarrow> step list \<times> table flow" where
  "read_rows e isXlsx isCsv fileBuffer =
     (if isXlsx then
        ([XlsxRead],
         case xlsx_read e fileBuffer of None \<Rightarrow> Throw XlsxError | Some rows \<Rightarrow> Continue rows)
      else if isCsv then
        ([ParseCSV], Continue (map (map Str) (parseCSV fileBuffer)))
      else ([], Return (Failure ''Unsupported file format'')))"

text \<open>The block "Generate output".\<close>

definition generate :: "env \<Rightarrow> bool \<Rightarrow> string \<Rightarrow> table \<Rightarrow> step list \<times> outcome" where
  "generate e isXlsx name transformedData =
     (if length transformedData > 0 then
        (if isXlsx then
           ([XlsxWrite],
            case xlsx_write e transformedData of
              None \<Rightarrow> Threw XlsxError
            | Some outputBuffer \<Rightarrow>
                Returned (Success (replace_suffix_i ''.xlsx'' ''-export.xlsx'' name)
                  outputBuffer (int (length transformedData) - 1) transformedData))
         else
           ([], Returned (Success (replace_suffix_i ''.csv'' ''-export.csv'' name)
                  (join [LF] (map rowToCSV transformedData))
                  (int (length transformedData) - 1) transformedData)))
      else ([], Returned (Failure ''No data to export'')))"

definition createExport :: "env \<Rightarrow> js_file \<Rightarrow> string option \<Rightarrow> step list \<times> outcome" where
  "createExport e file fname =
     (if \<not> provided file then ([], Returned (Failure ''No file provided''))
      else case fname of
        None \<Rightarrow> ([], Threw TypeError)
      | Some name \<Rightarrow>
          let isXlsx = endsWith (toLowerCase name) ''.xlsx'';
              isCsv = endsWith (toLowerCase name) ''.csv''
          in (case fileBuffer_of e file of
               (s1, Throw x) \<Rightarrow> (s1, Threw x)
             | (s1, Return r) \<Rightarrow> (s1, Returned r)
             | (s1, Continue fileBuffer) \<Rightarrow>
                 (case read_rows e isXlsx isCsv fileBuffer of
                    (s2, Throw x) \<Rightarrow> (s1 @ s2, Threw x)
                  | (s2, Return r) \<Rightarrow> (s1 @ s2, Returned r)
                  | (s2, Continue rows) \<Rightarrow>
                      (let transformedData = transformData rows;
                           (s3, out) = generate e isXlsx name transformedData
                       in (s1 @ s2 @ [TransformData] @ s3, out)))))"

section \<open>Derived notions and reference definitions\<close>

text \<open>
  The text of the SKU cell of a pruned row as the row filter reads it: the empty string
  where the cell is missing (index \<open>-1\<close> or beyond the row) or falsy, the trimmed text
  otherwise.
\<close>

definition sku_text :: "int \<Rightarrow> row \<Rightarrow> string" where
  "sku_text vi r = (let c = nth_js r vi in if truthy c then js_trim (js_String c) else [])"

text \<open>Column pruning of one row, for the removal set of a header row.\<close>

definition prune :: "row \<Rightarrow> row \<Rightarrow> row" where
  "prune header r = filter_index (\<lambda>index. index \<notin> indicesToRemove header) r"


definition blank :: "string \<Rightarrow> bool" where
  "blank s = (\<forall>c\<in>set s. is_ws c)"







text \<open>
  For a table of text cells: the SKU cell of a data row (the cell under the first header
  equal to \<open>Variant SKU\<close>, the empty string where the row is too short).
\<close>

definition sku_cell :: "string list \<Rightarrow> string list \<Rightarrow> string" where
  "sku_cell header r =
     (let i = length (takeWhile (\<lambda>h. h \<noteq> ''Variant SKU'') header)
      in if i < length r then r ! i else [])"

text \<open>Text without any character that the CSV syntax gives a meaning to.\<close>

definition plain :: "string \<Rightarrow> bool" where
  "plain s = (\<forall>c\<in>set s. c \<noteq> DQ \<and> c \<noteq> COMMA \<and> c \<noteq> LF \<and> c \<noteq> CR)"

text \<open>A row that the writer does not turn into an empty line.\<close>

definition writable :: "string list \<Rightarrow> bool" where
  "writable r = (r \<noteq> [] \<and> r \<noteq> [[]])"

text \<open>The parser loop, continued from a state given as one value.\<close>

definition resume ::
  "string list list \<times> string list \<times> string \<times> bool \<Rightarrow> string \<Rightarrow> string list list" where
  "resume st cs = (case st of (rows, currentRow, fld, q) \<Rightarrow> parse_loop rows currentRow fld q cs)"

text \<open>
  An environment for the examples: one CSV file on disk (no other path can be read), one
  buffer that the workbook reader accepts (every other buffer stands for one that it
  rejects), and a writer that always succeeds.
\<close>

definition sample_env :: env where
  "sample_env =
     \<lparr>readFileSync = (\<lambda>p. if p = ''products.csv''
                           then Some (''Handle,Variant SKU'' @ [LF] @ ''h1,SKU1'' @ [LF])
                           else None),
      xlsx_read = (\<lambda>b. if b = ''PK''
                        then Some [[Str ''Handle'', Str ''Variant SKU''],
                                   [Str ''h1'', Num ''1001''], [Str ''h2'']]
                        else None),
      xlsx_write = (\<lambda>t. Some ''PK'')\<rparr>"

section \<open>Column pruning and row filtering: lemmas\<close>

lemma keep_rows_snd:
  "snd (keep_rows vi rs (H, U)) = U @ filter (\<lambda>r. sku_text vi r \<noteq> []) rs"
  by (induction rs arbitrary: H U) (simp_all add: sku_text_def Let_def)

lemma filteredRows_Cons:
  "filteredRows (header # rest) = prune header header # map (prune header) rest"
  by (simp add: filteredRows_def prune_def)

lemma transformData_Cons:
  "transformData (header # rest) =
     prune header header #
       filter (\<lambda>r. sku_text (variantSKUIndex (prune header header)) r \<noteq> []) (map (prune header) rest)"
  by (simp add: transformData_def filteredRows_Cons keep_rows_snd Let_def)

lemma transformData_Nil: "transformData [] = []"
  by (simp add: transformData_def)

lemma findIndex_from_none:
  "(\<forall>x\<in>set xs. \<not> p x) \<Longrightarrow> findIndex_from p i xs = - 1"
  by (induction xs arbitrary: i) simp_all

lemma findIndex_from_first:
  "\<exists>x\<in>set xs. p x \<Longrightarrow>
     findIndex_from p i xs = i + int (length (takeWhile (\<lambda>x. \<not> p x) xs))"
proof (induction xs arbitrary: i)
  case Nil
  then show ?case by simp
next
  case (Cons a xs)
  show ?case
  proof (cases "p a")
    case True
    then show ?thesis by simp
  next
    case False
    with Cons.prems have "\<exists>x\<in>set xs. p x" by auto
    from Cons.IH [OF this, of "i + 1"] False show ?thesis by simp
  qed
qed

lemma fileBuffer_of_Return:
  "fileBuffer_of e file = (s, Return r) \<Longrightarrow> r = Failure ''Invalid file format''"
  by (cases "file") (auto split: option.splits)

lemma read_rows_Return:
  "read_rows e x c b = (s, Return r) \<Longrightarrow> r = Failure ''Unsupported file format''"
  by (auto simp: read_rows_def split: if_splits option.splits)

lemma sku_text_minus_one: "sku_text (- 1) r = []"
  by (simp add: sku_text_def nth_js_def)

lemma generate_steps: "fst (generate e x name t) = (if x \<and> t \<noteq> [] then [XlsxWrite] else [])"
  by (simp add: generate_def)

lemma js_trim_empty_iff: "js_trim s = [] \<longleftrightarrow> (\<forall>c\<in>set s. is_ws c)"
proof -
  have "js_trim s = [] \<longleftrightarrow> (\<forall>c\<in>set (dropWhile is_ws s). is_ws c)"
    by (simp add: js_trim_def dropWhile_eq_Nil_conv)
  also have "\<dots> \<longleftrightarrow> dropWhile is_ws s = []"
    by (metis hd_dropWhile list.set_sel(1) empty_iff list.set(1))
  also have "\<dots> \<longleftrightarrow> (\<forall>c\<in>set s. is_ws c)"
    by (simp add: dropWhile_eq_Nil_conv)
  finally show ?thesis .
qed

lemma filter_enumerate_snd:
  "map snd (filter (\<lambda>(index, x). P x) (enumerate n r)) = filter P r"
  by (induction r arbitrary: n) simp_all

lemma filter_index_all: "filter_index (\<lambda>index. True) r = filter (\<lambda>x. x \<noteq> Absent) r"
  by (simp add: filter_index_def filter_enumerate_snd)

lemma filter_index_Str: "filter_index (\<lambda>index. True) (map Str r) = map Str r"
  by (simp add: filter_index_all filter_map o_def)

lemma indicesToRemove_none:
  assumes "\<forall>h\<in>set header. \<forall>p\<in>set prefixes. \<not> startsWith (js_String h) p"
  shows "indicesToRemove header = {}"
  using assms by (auto simp: indicesToRemove_def list_ex_iff)

lemma prune_Str_id:
  assumes "\<forall>h\<in>set header. \<forall>p\<in>set prefixes. \<not> startsWith h p"
  shows "prune (map Str header) (map Str r) = map Str r"
proof -
  have "indicesToRemove (map Str header) = {}"
    using assms by (intro indicesToRemove_none) auto
  then show ?thesis by (simp add: prune_def filter_index_Str)
qed

lemma variantSKUIndex_Str:
  assumes "''Variant SKU'' \<in> set header"
  shows "variantSKUIndex (map Str header)
           = int (length (takeWhile (\<lambda>h. h \<noteq> ''Variant SKU'') header))"
proof -
  have "\<exists>x\<in>set (map Str header). js_String x = ''Variant SKU''"
    using assms by auto
  then show ?thesis
    unfolding variantSKUIndex_def findIndex_def
    by (simp add: findIndex_from_first takeWhile_map o_def)
qed

lemma sku_text_Str:
  "sku_text (int k) (map Str r) = js_trim (if k < length r then r ! k else [])"
  by (simp add: sku_text_def nth_js_def js_trim_def)

lemma endsWith_last: "endsWith s suf \<Longrightarrow> suf \<noteq> [] \<Longrightarrow> last s = last suf"
  unfolding endsWith_def by (metis last_drop drop_eq_Nil not_le)

lemma csv_not_xlsx: "endsWith s ''.csv'' \<Longrightarrow> \<not> endsWith s ''.xlsx''"
  using endsWith_last [of s "''.csv''"] endsWith_last [of s "''.xlsx''"] by auto

lemma createExport_rows:
  assumes "provided file" "fileBuffer_of e file = (s1, Continue content)"
    and "read_rows e (endsWith (toLowerCase name) ''.xlsx'')
           (endsWith (toLowerCase name) ''.csv'') content = (s2, Continue rows)"
  shows "createExport e file (Some name)
           = (s1 @ s2 @ [TransformData]
                @ fst (generate e (endsWith (toLowerCase name) ''.xlsx'') name (transformData rows)),
              snd (generate e (endsWith (toLowerCase name) ''.xlsx'') name (transformData rows)))"
  using assms by (simp add: createExport_def Let_def split: prod.splits)

lemma read_rows_csv:
  assumes "endsWith (toLowerCase name) ''.csv''"
  shows "read_rows e (endsWith (toLowerCase name) ''.xlsx'')
           (endsWith (toLowerCase name) ''.csv'') content
         = ([ParseCSV], Continue (map (map Str) (parseCSV content)))"
  using assms csv_not_xlsx [OF assms] by (simp add: read_rows_def)

section \<open>The CSV parser and writer: lemmas\<close>

lemma parse_loop_append_char:
  assumes "c \<noteq> DQ" and "insideQuotes \<or> (c \<noteq> COMMA \<and> c \<noteq> LF \<and> c \<noteq> CR)"
  shows "parse_loop rows currentRow fld insideQuotes (c # cs)
           = parse_loop rows currentRow (fld @ [c]) insideQuotes cs"
  using assms by (auto simp: Let_def)

lemma parse_loop_plain:
  assumes "plain f"
  shows "parse_loop rows currentRow fld q (f @ rest) = parse_loop rows currentRow (fld @ f) q rest"
  using assms
proof (induction f arbitrary: fld)
  case Nil
  then show ?case by simp
next
  case (Cons c f)
  then have "plain f" and c: "c \<noteq> DQ" "c \<noteq> COMMA \<and> c \<noteq> LF \<and> c \<noteq> CR"
    by (simp_all add: plain_def)
  from Cons.IH [OF \<open>plain f\<close>, of "fld @ [c]"] parse_loop_append_char [OF c(1), of q, OF disjI2, OF c(2)]
  show ?case by simp
qed

lemma parse_loop_escaped_quote:
  "parse_loop rows currentRow fld True (DQ # DQ # cs)
     = parse_loop rows currentRow (fld @ [DQ]) True cs"
  by (simp add: Let_def)

lemma parse_loop_closing_quote:
  assumes "rest = [] \<or> hd rest \<noteq> DQ"
  shows "parse_loop rows currentRow fld True (DQ # rest) = parse_loop rows currentRow fld False rest"
  using assms by (cases rest) (simp_all add: Let_def)

lemma parse_loop_opening_quote:
  "parse_loop rows currentRow fld False (DQ # cs) = parse_loop rows currentRow fld True cs"
  by (simp add: Let_def)

lemma parse_loop_quoted_body:
  assumes "rest = [] \<or> hd rest \<noteq> DQ"
  shows "parse_loop rows currentRow fld True (double_quotes f @ DQ # rest)
           = parse_loop rows currentRow (fld @ f) False rest"
proof (induction f arbitrary: fld)
  case Nil
  show ?case using parse_loop_closing_quote [OF assms] by (simp add: double_quotes_def)
next
  case (Cons c f)
  show ?case
  proof (cases "c = DQ")
    case True
    have "double_quotes (c # f) = DQ # DQ # double_quotes f"
      using True by (simp add: double_quotes_def)
    then show ?thesis
      using Cons [of "fld @ [DQ]"] True by (simp only: append_Cons parse_loop_escaped_quote) simp
  next
    case False
    have "double_quotes (c # f) = c # double_quotes f"
      using False by (simp add: double_quotes_def)
    then show ?thesis
      using Cons [of "fld @ [c]"] parse_loop_append_char [OF False, of True] by simp
  qed
qed

lemma parse_loop_quoted_field:
  assumes "rest = [] \<or> hd rest \<noteq> DQ"
  shows "parse_loop rows currentRow fld False (DQ # double_quotes f @ DQ # rest)
           = parse_loop rows currentRow (fld @ f) False rest"
  by (simp only: parse_loop_opening_quote parse_loop_quoted_body [OF assms])

lemma not_needs_quotes_plain: "\<not> needs_quotes f \<Longrightarrow> plain f"
  by (auto simp: needs_quotes_def plain_def)

lemma parse_loop_field:
  assumes "rest = [] \<or> hd rest \<noteq> DQ"
  shows "parse_loop rows currentRow fld False (field_to_csv (Str f) @ rest)
           = parse_loop rows currentRow (fld @ f) False rest"
proof (cases "needs_quotes f")
  case True
  then have "field_to_csv (Str f) @ rest = DQ # double_quotes f @ DQ # rest"
    by (simp add: field_to_csv_def)
  then show ?thesis by (simp only: parse_loop_quoted_field [OF assms])
next
  case False
  then have "field_to_csv (Str f) = f" by (simp add: field_to_csv_def)
  then show ?thesis using parse_loop_plain [OF not_needs_quotes_plain [OF False]] by simp
qed

lemma parse_loop_comma:
  "parse_loop rows currentRow fld False (COMMA # cs) = parse_loop rows (currentRow @ [fld]) [] False cs"
  by (simp add: Let_def)

lemma parse_loop_row:
  assumes "fs \<noteq> []" and "rest = [] \<or> hd rest = LF"
  shows "parse_loop rows currentRow [] False (rowToCSV (map Str fs) @ rest)
           = parse_loop rows (currentRow @ butlast fs) (last fs) False rest"
  using assms(1)
proof (induction fs arbitrary: currentRow rule: induct_list012)
  case 1
  then show ?case by simp
next
  case (2 f)
  have "rest = [] \<or> hd rest \<noteq> DQ" using assms(2) by auto
  from parse_loop_field [OF this, of rows currentRow "[]" f]
  show ?case by (simp add: rowToCSV_def)
next
  case (3 f g gs)
  have "rowToCSV (map Str (f # g # gs)) @ rest
          = field_to_csv (Str f) @ (COMMA # (rowToCSV (map Str (g # gs)) @ rest))"
    by (simp add: rowToCSV_def)
  moreover have "(COMMA # (rowToCSV (map Str (g # gs)) @ rest)) = [] \<or> hd (COMMA # (rowToCSV (map Str (g # gs)) @ rest)) \<noteq> DQ"
    by simp
  ultimately have "parse_loop rows currentRow [] False (rowToCSV (map Str (f # g # gs)) @ rest)
      = parse_loop rows currentRow f False (COMMA # (rowToCSV (map Str (g # gs)) @ rest))"
    using parse_loop_field [of "COMMA # (rowToCSV (map Str (g # gs)) @ rest)" rows currentRow "[]" f]
    by simp
  also have "\<dots> = parse_loop rows (currentRow @ [f]) [] False (rowToCSV (map Str (g # gs)) @ rest)"
    by (rule parse_loop_comma)
  also have "\<dots> = parse_loop rows ((currentRow @ [f]) @ butlast (g # gs)) (last (g # gs)) False rest"
    using "3.IH"(2) [of "currentRow @ [f]"] by simp
  finally show ?case by simp
qed

lemma parse_loop_newline:
  assumes "fld \<noteq> [] \<or> currentRow \<noteq> []"
  shows "parse_loop rows currentRow fld False (LF # cs)
           = parse_loop (rows @ [currentRow @ [fld]]) [] [] False cs"
  using assms by (auto simp: Let_def)

lemma parse_loop_end:
  "fld \<noteq> [] \<or> currentRow \<noteq> [] \<Longrightarrow>
     parse_loop rows currentRow fld q [] = rows @ [currentRow @ [fld]]"
  by auto

lemma writable_pending: "writable r \<Longrightarrow> last r \<noteq> [] \<or> butlast r \<noteq> []"
  by (cases r rule: rev_cases) (auto simp: writable_def)

lemma parse_loop_table:
  assumes "\<forall>r\<in>set t. writable r"
  shows "parse_loop rows [] [] False (join [LF] (map rowToCSV (map (map Str) t))) = rows @ t"
  using assms
proof (induction t arbitrary: rows rule: induct_list012)
  case 1
  then show ?case by simp
next
  case (2 r)
  then have w: "writable r" by simp
  then have ne: "r \<noteq> []" by (simp add: writable_def)
  have "parse_loop rows [] [] False (join [LF] (map rowToCSV (map (map Str) [r])))
      = parse_loop rows (butlast r) (last r) False []"
    using parse_loop_row [OF ne, of "[]" rows "[]"] by simp
  also have "\<dots> = rows @ [butlast r @ [last r]]"
    using parse_loop_end [of "last r" "butlast r" rows False] writable_pending [OF w] by blast
  also have "\<dots> = rows @ [r]"
    using ne by simp
  finally show ?case .
next
  case (3 r s ss)
  then have w: "writable r" and rest: "\<forall>r\<in>set (s # ss). writable r" by simp_all
  then have ne: "r \<noteq> []" by (simp add: writable_def)
  let ?tail = "join [LF] (map rowToCSV (map (map Str) (s # ss)))"
  have "parse_loop rows [] [] False (join [LF] (map rowToCSV (map (map Str) (r # s # ss))))
      = parse_loop rows [] [] False (rowToCSV (map Str r) @ (LF # ?tail))"
    by simp
  also have "\<dots> = parse_loop rows (butlast r) (last r) False (LF # ?tail)"
    using parse_loop_row [OF ne, of "LF # ?tail" rows "[]"] by simp
  also have "\<dots> = parse_loop (rows @ [r]) [] [] False ?tail"
    using parse_loop_newline [of "last r" "butlast r" rows ?tail] writable_pending [OF w] ne
    by auto
  also have "\<dots> = (rows @ [r]) @ (s # ss)"
    using "3.IH"(2) [OF rest, of "rows @ [r]"] .
  finally show ?case by simp
qed

lemma resume_step:
  "resume (rows, currentRow, fld, q) (c # u) =
     (if c = DQ then
        (if q \<and> u \<noteq> [] \<and> hd u = DQ then resume (rows, currentRow, fld @ [DQ], q) (tl u)
         else resume (rows, currentRow, fld, \<not> q) u)
      else if c = COMMA \<and> \<not> q then resume (rows, currentRow @ [fld], [], q) u
      else if (c = LF \<or> c = CR) \<and> \<not> q then
        resume (if fld \<noteq> [] \<or> currentRow \<noteq> [] then (rows @ [currentRow @ [fld]], [], [], q)
                else (rows, currentRow, fld, q))
          (if c = CR \<and> u \<noteq> [] \<and> hd u = LF then tl u else u)
      else resume (rows, currentRow, fld @ [c], q) u)"
  by (cases u) (simp_all add: resume_def Let_def)

lemma resume_step_cases:
  "(\<exists>st'. resume st (c # u) = resume st' u)
   \<or> (u \<noteq> [] \<and> (hd u = DQ \<or> hd u = LF) \<and> (\<exists>st'. resume st (c # u) = resume st' (tl u)))"
proof -
  obtain rows currentRow fld q where st: "st = (rows, currentRow, fld, q)"
    by (cases st)
  show ?thesis
    unfolding st resume_step by (simp split: if_splits) blast+
qed

lemma resume_reaches:
  assumes "t \<noteq> []" and "hd t \<noteq> DQ" and "hd t \<noteq> LF"
  shows "\<exists>st'. resume st (s @ t) = resume st' t"
proof (induction "length s" arbitrary: s st rule: less_induct)
  case less
  show ?case
  proof (cases s)
    case Nil
    then show ?thesis by (intro exI [of _ st]) simp
  next
    case (Cons c cs)
    from resume_step_cases [of st c "cs @ t"]
    consider (one) st' where "resume st (c # cs @ t) = resume st' (cs @ t)"
      | (two) st' where "cs @ t \<noteq> []" "hd (cs @ t) = DQ \<or> hd (cs @ t) = LF"
          "resume st (c # cs @ t) = resume st' (tl (cs @ t))"
      by blast
    then show ?thesis
    proof cases
      case one
      from less [of cs st'] Cons obtain st'' where "resume st' (cs @ t) = resume st'' t"
        by auto
      with one Cons show ?thesis by (intro exI [of _ st'']) simp
    next
      case two
      from two(2) assms have ne: "cs \<noteq> []" by (cases cs) auto
      then have tl: "tl (cs @ t) = tl cs @ t" by simp
      from less [of "tl cs" st'] Cons ne obtain st'' where
        "resume st' (tl cs @ t) = resume st'' t"
        by (cases cs) auto
      with two(3) tl Cons show ?thesis by (intro exI [of _ st'']) simp
    qed
  qed
qed

lemma resume_final_newline:
  assumes "q \<longleftrightarrow> odd (length (filter (\<lambda>c. c = DQ) s))"
  shows "resume (rows, currentRow, fld, q) (s @ [LF]) = resume (rows, currentRow, fld, q) s"
  using assms
proof (induction "length s" arbitrary: s rows currentRow fld q rule: less_induct)
  case less
  show ?case
  proof (cases s)
    case Nil
    with less.prems have "\<not> q" by simp
    with Nil show ?thesis by (simp add: resume_def Let_def)
  next
    case (Cons c cs)
    note s = Cons
    have ih1: "resume (r1, r2, r3, q') (cs @ [LF]) = resume (r1, r2, r3, q') cs"
      if "q' \<longleftrightarrow> odd (length (filter (\<lambda>c. c = DQ) cs))" for r1 r2 r3 q'
      using less.hyps [of cs q' r1 r2 r3] s that by simp
    have unfoldL: "resume (rows, currentRow, fld, q) (s @ [LF])
        = resume (rows, currentRow, fld, q) (c # (cs @ [LF]))"
      using s by simp
    have unfoldR: "resume (rows, currentRow, fld, q) s = resume (rows, currentRow, fld, q) (c # cs)"
      using s by simp
    show ?thesis
    proof (cases "cs = []")
      case True
      have base: "resume (r1, r2, r3, False) ([] @ [LF]) = resume (r1, r2, r3, False) []" for r1 r2 r3
        using ih1 [of False r1 r2 r3] True by simp
      have nilf: "hd ([] @ [LF]) = LF" "tl ([] @ [LF]) = []" "[] @ [LF] \<noteq> []"
        by simp_all
      show ?thesis
      proof (cases "c = DQ")
        case dq: True
        with s True less.prems have "q" by simp
        with dq True base show ?thesis
          unfolding unfoldL unfoldR
          by (simp add: resume_step [where c = DQ] nilf del: append_Nil)
      next
        case False
        with s True less.prems have "\<not> q" by simp
        with False True base show ?thesis
          unfolding unfoldL unfoldR
          by (simp add: resume_step [where c = c] nilf del: append_Nil)
      qed
    next
      case ne: False
      then have parts: "cs = hd cs # tl cs" by simp
      have par: "odd (length (filter (\<lambda>c. c = DQ) cs))
          \<longleftrightarrow> (if hd cs = DQ then even (length (filter (\<lambda>c. c = DQ) (tl cs)))
               else odd (length (filter (\<lambda>c. c = DQ) (tl cs))))"
        by (subst parts) simp
      have ih2: "resume (r1, r2, r3, q') (tl cs @ [LF]) = resume (r1, r2, r3, q') (tl cs)"
        if "q' \<longleftrightarrow> odd (length (filter (\<lambda>c. c = DQ) (tl cs)))" for r1 r2 r3 q'
        using less.hyps [of "tl cs" q' r1 r2 r3] s ne that by simp
      have hdtl: "hd (cs @ [LF]) = hd cs" "tl (cs @ [LF]) = tl cs @ [LF]" "cs @ [LF] \<noteq> []"
        using ne by simp_all
      show ?thesis
      proof (cases "c = DQ")
        case True
        show ?thesis
        proof (cases "q \<and> hd cs = DQ")
          case esc: True
          with True s less.prems par
          have "q \<longleftrightarrow> odd (length (filter (\<lambda>c. c = DQ) (tl cs)))" by simp
          from ih2 [OF this] esc True ne hdtl show ?thesis
            unfolding unfoldL unfoldR by (simp add: resume_step [where c = DQ])
        next
          case False
          with True s less.prems
          have "(\<not> q) \<longleftrightarrow> odd (length (filter (\<lambda>c. c = DQ) cs))" by simp
          from ih1 [OF this] False True ne hdtl show ?thesis
            unfolding unfoldL unfoldR by (cases q) (simp_all add: resume_step [where c = DQ])
        qed
      next
        case False
        with s less.prems have p1: "q \<longleftrightarrow> odd (length (filter (\<lambda>c. c = DQ) cs))" by simp
        show ?thesis
        proof (cases "c = CR \<and> hd cs = LF \<and> \<not> q")
          case True
          with p1 par have "q \<longleftrightarrow> odd (length (filter (\<lambda>c. c = DQ) (tl cs)))" by simp
          from ih2 [OF this] True False ne hdtl show ?thesis
            unfolding unfoldL unfoldR by (simp add: resume_step [where c = CR])
        next
          case nocrlf: False
          from ih1 [OF p1] nocrlf False ne hdtl show ?thesis
            unfolding unfoldL unfoldR by (cases q) (simp_all add: resume_step [where c = c])
        qed
      qed
    qed
  qed
qed

lemma parseCSV_final_newline:
  assumes "even (length (filter (\<lambda>c. c = DQ) s))"
  shows "parseCSV (s @ [LF]) = parseCSV s"
  using resume_final_newline [of False s "[]" "[]" "[]"] assms
  by (simp add: resume_def parseCSV_def)

lemma join_snoc: "xs \<noteq> [] \<Longrightarrow> join sep (xs @ [y]) = join sep xs @ sep @ y"
  by (induction xs rule: induct_list012) simp_all

lemma join_last_append: "join sep (xs @ [y @ z]) = join sep (xs @ [y]) @ z"
  by (cases "xs = []") (simp_all add: join_snoc)

lemma parse_loop_tail:
  assumes "DQ \<notin> set t" and "LF \<notin> set t" and "CR \<notin> set t"
    and "t \<noteq> [] \<or> fld \<noteq> [] \<or> currentRow \<noteq> []"
  shows "\<exists>rec. parse_loop rows currentRow fld q t = rows @ [rec]
           \<and> join [COMMA] rec = join [COMMA] (currentRow @ [fld]) @ t"
  using assms
proof (induction t arbitrary: currentRow fld)
  case Nil
  then have "parse_loop rows currentRow fld q [] = rows @ [currentRow @ [fld]]"
    using parse_loop_end [of fld currentRow rows q] by blast
  then show ?case by simp
next
  case (Cons c t)
  then have c: "c \<noteq> DQ" "c \<noteq> LF" "c \<noteq> CR"
    and t: "DQ \<notin> set t" "LF \<notin> set t" "CR \<notin> set t"
    by auto
  show ?case
  proof (cases "c = COMMA \<and> \<not> q")
    case True
    then have step: "parse_loop rows currentRow fld q (c # t)
        = parse_loop rows (currentRow @ [fld]) [] q t"
      using parse_loop_comma [of rows currentRow fld t] by simp
    from Cons.IH [OF t, of "[]" "currentRow @ [fld]"] obtain rec where
      r: "parse_loop rows (currentRow @ [fld]) [] q t = rows @ [rec]"
      and j: "join [COMMA] rec = join [COMMA] ((currentRow @ [fld]) @ [[]]) @ t"
      by auto
    have "join [COMMA] ((currentRow @ [fld]) @ [[]]) = join [COMMA] (currentRow @ [fld]) @ [COMMA]"
      using join_snoc [of "currentRow @ [fld]" "[COMMA]" "[]"] by simp
    with j True have "join [COMMA] rec = join [COMMA] (currentRow @ [fld]) @ c # t"
      by simp
    with step r show ?thesis by simp
  next
    case False
    with c have "q \<or> (c \<noteq> COMMA \<and> c \<noteq> LF \<and> c \<noteq> CR)" by auto
    from parse_loop_append_char [OF c(1) this]
    have step: "parse_loop rows currentRow fld q (c # t)
        = parse_loop rows currentRow (fld @ [c]) q t" .
    from Cons.IH [OF t, of "fld @ [c]" currentRow] obtain rec where
      r: "parse_loop rows currentRow (fld @ [c]) q t = rows @ [rec]"
      and j: "join [COMMA] rec = join [COMMA] (currentRow @ [fld @ [c]]) @ t"
      by auto
    from j join_last_append [of "[COMMA]" currentRow fld "[c]"]
    have "join [COMMA] rec = join [COMMA] (currentRow @ [fld]) @ c # t"
      by simp
    with step r show ?thesis by simp
  qed
qed

lemma parseCSV_trailing_record:
  assumes "t \<noteq> []" and "DQ \<notin> set t" and "LF \<notin> set t" and "CR \<notin> set t"
  shows "\<exists>rows' rec pre. parseCSV (s @ t) = rows' @ [rec] \<and> join [COMMA] rec = pre @ t"
proof -
  have "hd t \<noteq> DQ" "hd t \<noteq> LF"
    using assms by (cases t; auto)+
  from resume_reaches [OF assms(1) this, of "([], [], [], False)" s]
  obtain rows' row' fld' q' where
    "parseCSV (s @ t) = parse_loop rows' row' fld' q' t"
    by (auto simp: parseCSV_def resume_def)
  moreover from parse_loop_tail [OF assms(2,3,4), of fld' row' rows' q'] assms(1)
  obtain rec where "parse_loop rows' row' fld' q' t = rows' @ [rec]"
    "join [COMMA] rec = join [COMMA] (row' @ [fld']) @ t"
    by auto
  ultimately show ?thesis by metis
qed

section \<open>File names and the entry point: lemmas\<close>

lemma of_char_toLowerCase:
  "(of_char (toLowerCase_char c) :: nat) =
     (let n = (of_char c :: nat)
      in if (65 \<le> n \<and> n \<le> 90) \<or> (192 \<le> n \<and> n \<le> 222 \<and> n \<noteq> 215) then n + 32 else n)"
  by (simp add: toLowerCase_char_def Let_def)

lemma of_char_lt: "(of_char c :: nat) < 256"
  by (metis of_char_mod_256 mod_less_divisor zero_less_numeral)

lemma of_char_canonicalize:
  "(of_char (canonicalize c) :: nat) =
     (let n = (of_char c :: nat)
      in if (97 \<le> n \<and> n \<le> 122) \<or> (224 \<le> n \<and> n \<le> 254 \<and> n \<noteq> 247) then n - 32 else n)"
proof -
  have "(of_char c :: nat) - 32 < 256"
    using of_char_lt [of c] by arith
  then have "((of_char c :: nat) - 32) mod 256 = of_char c - 32"
    by (rule mod_less)
  then show ?thesis
    by (simp add: canonicalize_def Let_def)
qed

lemma code_lower_iff_canon:
  fixes n m :: nat
  assumes "(97 \<le> m \<and> m \<le> 122) \<or> m < 65"
  shows "((if (65 \<le> n \<and> n \<le> 90) \<or> (192 \<le> n \<and> n \<le> 222 \<and> n \<noteq> 215) then n + 32 else n) = m)
     \<longleftrightarrow> ((if (97 \<le> n \<and> n \<le> 122) \<or> (224 \<le> n \<and> n \<le> 254 \<and> n \<noteq> 247) then n - 32 else n)
          = (if (97 \<le> m \<and> m \<le> 122) \<or> (224 \<le> m \<and> m \<le> 254 \<and> m \<noteq> 247) then m - 32 else m))"
proof -
  consider "n < 65" | "65 \<le> n \<and> n \<le> 90" | "90 < n \<and> n < 97" | "97 \<le> n \<and> n \<le> 122"
    | "122 < n \<and> n < 192" | "192 \<le> n \<and> n \<le> 222" | "222 < n"
    by linarith
  then show ?thesis
  proof cases
    case 1 with assms show ?thesis by auto
  next
    case 2 with assms show ?thesis by auto
  next
    case 3 with assms show ?thesis by auto
  next
    case 4 with assms show ?thesis by auto
  next
    case 5 with assms show ?thesis by auto
  next
    case 6 with assms show ?thesis by auto
  next
    case 7 with assms show ?thesis by auto
  qed
qed

lemma lower_iff_canonical:
  assumes "(97 \<le> (of_char l :: nat) \<and> (of_char l :: nat) \<le> 122) \<or> (of_char l :: nat) < 65"
  shows "toLowerCase_char c = l \<longleftrightarrow> canonicalize c = canonicalize l"
proof -
  have "toLowerCase_char c = l \<longleftrightarrow> (of_char (toLowerCase_char c) :: nat) = of_char l"
    by simp
  also have "\<dots> \<longleftrightarrow> (of_char (canonicalize c) :: nat) = of_char (canonicalize l)"
    unfolding of_char_toLowerCase of_char_canonicalize Let_def
    by (rule code_lower_iff_canon [OF assms])
  also have "\<dots> \<longleftrightarrow> canonicalize c = canonicalize l"
    by simp
  finally show ?thesis .
qed

lemma map_lower_iff_canonical:
  assumes "\<forall>l\<in>set lit. (97 \<le> (of_char l :: nat) \<and> (of_char l :: nat) \<le> 122) \<or> (of_char l :: nat) < 65"
  shows "map toLowerCase_char xs = lit \<longleftrightarrow> map canonicalize xs = map canonicalize lit"
  using assms
proof (induction xs arbitrary: lit)
  case Nil
  then show ?case by auto
next
  case (Cons x xs)
  show ?case
  proof (cases lit)
    case Nil
    then show ?thesis by simp
  next
    case (Cons l ls)
    with Cons.prems Cons.IH [of ls] lower_iff_canonical [of l x] show ?thesis
      by simp
  qed
qed

lemma endsWith_lower_iff:
  assumes "\<forall>l\<in>set lit. (97 \<le> (of_char l :: nat) \<and> (of_char l :: nat) \<le> 122) \<or> (of_char l :: nat) < 65"
  shows "endsWith (toLowerCase s) lit \<longleftrightarrow>
           (length lit \<le> length s
            \<and> map canonicalize (drop (length s - length lit) s) = map canonicalize lit)"
  using map_lower_iff_canonical [OF assms, of "drop (length s - length lit) s"]
  by (simp add: endsWith_def toLowerCase_def drop_map)

lemma replace_suffix_i_eq:
  assumes "\<forall>l\<in>set lit. (97 \<le> (of_char l :: nat) \<and> (of_char l :: nat) \<le> 122) \<or> (of_char l :: nat) < 65"
  shows "replace_suffix_i lit repl s =
           (if endsWith (toLowerCase s) lit then take (length s - length lit) s @ repl else s)"
  using endsWith_lower_iff [OF assms, of s] by (simp add: replace_suffix_i_def)

lemma replace_xlsx:
  "replace_suffix_i ''.xlsx'' repl s =
     (if endsWith (toLowerCase s) ''.xlsx'' then take (length s - 5) s @ repl else s)"
  using replace_suffix_i_eq [of "''.xlsx''" repl s] by (simp add: eval_nat_numeral)

lemma replace_csv:
  "replace_suffix_i ''.csv'' repl s =
     (if endsWith (toLowerCase s) ''.csv'' then take (length s - 4) s @ repl else s)"
  using replace_suffix_i_eq [of "''.csv''" repl s] by (simp add: eval_nat_numeral)

lemma createExport_Success_generate:
  assumes "createExport e file fname = (steps, Returned (Success f b n d))"
  shows "\<exists>name rows. fname = Some name
           \<and> snd (generate e (endsWith (toLowerCase name) ''.xlsx'') name (transformData rows))
               = Returned (Success f b n d)
           \<and> (endsWith (toLowerCase name) ''.xlsx'' \<or> endsWith (toLowerCase name) ''.csv'')"
proof -
  from assms obtain name where n: "fname = Some name" and p: "provided file"
    by (auto simp: createExport_def split: if_splits option.splits)
  let ?x = "endsWith (toLowerCase name) ''.xlsx''"
  let ?c = "endsWith (toLowerCase name) ''.csv''"
  from assms n p obtain s1 content where fb: "fileBuffer_of e file = (s1, Continue content)"
    by (auto simp: createExport_def Let_def split: prod.splits flow.splits
          dest: fileBuffer_of_Return)
  from assms n p fb obtain s2 rows where rr: "read_rows e ?x ?c content = (s2, Continue rows)"
    by (auto simp: createExport_def Let_def split: prod.splits flow.splits
          dest: read_rows_Return)
  from rr have "?x \<or> ?c"
    by (auto simp: read_rows_def split: if_splits)
  moreover from assms n p fb rr
  have "snd (generate e ?x name (transformData rows)) = Returned (Success f b n d)"
    by (auto simp: createExport_def Let_def split: prod.splits)
  ultimately show ?thesis using n by blast
qed

lemma fileBuffer_of_no_throw:
  assumes "\<forall>p. file = PathFile p \<longrightarrow> readFileSync e p \<noteq> None" and "file \<noteq> HolderFile None"
  shows "\<exists>s fl. fileBuffer_of e file = (s, fl) \<and> (\<forall>x. fl \<noteq> Throw x)"
  using assms by (cases "file") (auto split: option.splits)

lemma createExport_not_provided:
  "\<not> provided file \<Longrightarrow> createExport e file fname = ([], Returned (Failure ''No file provided''))"
  by (simp add: createExport_def)

lemma createExport_no_name:
  "provided file \<Longrightarrow> createExport e file None = ([], Threw TypeError)"
  by (simp add: createExport_def)

lemma createExport_invalid:
  assumes "provided file" and "fileBuffer_of e file = (s1, Return r)"
  shows "createExport e file (Some name) = (s1, Returned (Failure ''Invalid file format''))"
  using assms fileBuffer_of_Return [OF assms(2)] by (simp add: createExport_def Let_def)

lemma createExport_unsupported:
  assumes "provided file" and "fileBuffer_of e file = (s1, Continue b)"
    and "\<not> endsWith (toLowerCase name) ''.xlsx''" and "\<not> endsWith (toLowerCase name) ''.csv''"
  shows "createExport e file (Some name) = (s1, Returned (Failure ''Unsupported file format''))"
  using assms by (simp add: createExport_def Let_def read_rows_def)

lemma fileBuffer_of_steps:
  "fileBuffer_of e file = (s1, fl) \<Longrightarrow>
     s1 = (case file of PathFile p \<Rightarrow> [ReadFileSync p] | HolderFile src \<Rightarrow> [BufferFrom] | _ \<Rightarrow> [])"
  by (cases "file") auto

lemma scenario_parse:
  "parseCSV (''Handle,Variant SKU,Google Category'' @ [LF] @ ''h1,SKU1,Cat'' @ [LF]
             @ ''h2,,Cat2'' @ [LF])
     = [[''Handle'', ''Variant SKU'', ''Google Category''], [''h1'', ''SKU1'', ''Cat''],
        [''h2'', [], ''Cat2'']]"
  by code_simp

lemma scenario_transform:
  "transformData [[Str ''Handle'', Str ''Variant SKU'', Str ''Google Category''],
                  [Str ''h1'', Str ''SKU1'', Str ''Cat''], [Str ''h2'', Str [], Str ''Cat2'']]
     = [[Str ''Handle'', Str ''Variant SKU''], [Str ''h1'', Str ''SKU1'']]"
  by code_simp

lemma scenario_csv:
  "join [LF] (map rowToCSV [[Str ''Handle'', Str ''Variant SKU''], [Str ''h1'', Str ''SKU1'']])
     = ''Handle,Variant SKU'' @ [LF] @ ''h1,SKU1''"
  by code_simp

section \<open>The reference transformation and trailing content: lemmas\<close>










lemma createExport_no_data:
  assumes "createExport e file fname = (steps, Returned (Failure ''No data to export''))"
  shows "\<exists>name content. fname = Some name
           \<and> snd (fileBuffer_of e file) = Continue content
           \<and> snd (read_rows e (endsWith (toLowerCase name) ''.xlsx'')
                    (endsWith (toLowerCase name) ''.csv'') content) = Continue []"
proof -
  from assms obtain name where n: "fname = Some name" and p: "provided file"
    by (auto simp: createExport_def split: if_splits option.splits)
  let ?x = "endsWith (toLowerCase name) ''.xlsx''"
  let ?c = "endsWith (toLowerCase name) ''.csv''"
  from assms n p obtain s1 content where fb: "fileBuffer_of e file = (s1, Continue content)"
    by (auto simp: createExport_def Let_def split: prod.splits flow.splits
          dest: fileBuffer_of_Return)
  from assms n p fb obtain s2 rows where rr: "read_rows e ?x ?c content = (s2, Continue rows)"
    by (auto simp: createExport_def Let_def split: prod.splits flow.splits
          dest: read_rows_Return)
  from assms n p fb rr
  have g: "snd (generate e ?x name (transformData rows)) = Returned (Failure ''No data to export'')"
    by (auto simp: createExport_def Let_def split: prod.splits)
  then have "transformData rows = []"
    by (auto simp: generate_def split: if_splits option.splits)
  then have "rows = []"
    by (cases rows) (simp_all add: transformData_Cons)
  with n fb rr show ?thesis by simp
qed

lemma createExport_empty_table:
  assumes "provided file" and "fileBuffer_of e file = (s1, Continue content)"
    and "read_rows e (endsWith (toLowerCase name) ''.xlsx'')
           (endsWith (toLowerCase name) ''.csv'') content = (s2, Continue [])"
  shows "snd (createExport e file (Some name)) = Returned (Failure ''No data to export'')"
  using createExport_rows [OF assms] by (simp add: transformData_Nil generate_def)

lemma generate_Returned:
  assumes "x \<and> t \<noteq> [] \<longrightarrow> xlsx_write e t \<noteq> None"
  shows "\<exists>r. snd (generate e x name t) = Returned r"
  using assms by (auto simp: generate_def)

lemma createExport_read_throws:
  assumes "provided file" and "fileBuffer_of e file = (s1, Continue b)"
    and "endsWith (toLowerCase name) ''.xlsx''" and "xlsx_read e b = None"
  shows "createExport e file (Some name) = (s1 @ [XlsxRead], Threw XlsxError)"
  using assms by (simp add: createExport_def Let_def read_rows_def)

lemma createExport_write_throws:
  assumes "provided file" and "fileBuffer_of e file = (s1, Continue b)"
    and "endsWith (toLowerCase name) ''.xlsx''" and "xlsx_read e b = Some rows"
    and "transformData rows \<noteq> []" and "xlsx_write e (transformData rows) = None"
  shows "createExport e file (Some name)
           = (s1 @ [XlsxRead, TransformData, XlsxWrite], Threw XlsxError)"
  using assms by (simp add: createExport_def Let_def read_rows_def generate_def)

lemma createExport_normalize_throws:
  assumes "provided file" and "fileBuffer_of e file = (s1, Throw x)"
  shows "createExport e file (Some name) = (s1, Threw x)"
  using assms by (simp add: createExport_def Let_def)

lemma resume_end:
  "fld \<noteq> [] \<or> currentRow \<noteq> [] \<Longrightarrow>
     resume (rows, currentRow, fld, q) [] = rows @ [currentRow @ [fld]]"
  by (auto simp: resume_def)

lemma resume_tail_quoted:
  assumes "LF \<notin> set t" and "CR \<notin> set t"
    and "(\<exists>c\<in>set t. c \<noteq> DQ) \<or> fld \<noteq> [] \<or> currentRow \<noteq> []"
  shows "\<exists>rec. resume (rows, currentRow, fld, q) t = rows @ [rec]
           \<and> filter (\<lambda>c. c \<noteq> DQ) (join [COMMA] rec)
               = filter (\<lambda>c. c \<noteq> DQ) (join [COMMA] (currentRow @ [fld]))
                 @ filter (\<lambda>c. c \<noteq> DQ) t"
  using assms
proof (induction "length t" arbitrary: t currentRow fld q rule: less_induct)
  case less
  show ?case
  proof (cases t)
    case Nil
    with less.prems have "fld \<noteq> [] \<or> currentRow \<noteq> []" by simp
    from resume_end [OF this, of rows q] Nil show ?thesis by simp
  next
    case (Cons c u)
    with less.prems have c: "c \<noteq> LF" "c \<noteq> CR" and u: "LF \<notin> set u" "CR \<notin> set u"
      by auto
    have ih: "\<exists>rec. resume (rows, ro, fl, qq) v = rows @ [rec]
           \<and> filter (\<lambda>c. c \<noteq> DQ) (join [COMMA] rec)
               = filter (\<lambda>c. c \<noteq> DQ) (join [COMMA] (ro @ [fl])) @ filter (\<lambda>c. c \<noteq> DQ) v"
      if "length v \<le> length u" "set v \<subseteq> set u"
        "(\<exists>c\<in>set v. c \<noteq> DQ) \<or> fl \<noteq> [] \<or> ro \<noteq> []" for ro fl qq v
    proof -
      have "length v < length t" using that(1) Cons by simp
      moreover have "LF \<notin> set v" "CR \<notin> set v" using that(2) u by auto
      ultimately show ?thesis using less.hyps [of v fl ro qq] that(3) by blast
    qed
    show ?thesis
    proof (cases "c = DQ")
      case True
      show ?thesis
      proof (cases "q \<and> u \<noteq> [] \<and> hd u = DQ")
        case esc: True
        then obtain v where uv: "u = DQ # v" by (cases u) auto
        have step: "resume (rows, currentRow, fld, q) t
            = resume (rows, currentRow, fld @ [DQ], q) v"
          using Cons True esc uv by (simp add: resume_step [where c = DQ])
        have "length v \<le> length u" "set v \<subseteq> set u"
          using uv by auto
        from ih [where v = v and ro = currentRow and fl = "fld @ [DQ]" and qq = q] this obtain rec where
          r: "resume (rows, currentRow, fld @ [DQ], q) v = rows @ [rec]"
          and j: "filter (\<lambda>c. c \<noteq> DQ) (join [COMMA] rec)
               = filter (\<lambda>c. c \<noteq> DQ) (join [COMMA] (currentRow @ [fld @ [DQ]]))
                 @ filter (\<lambda>c. c \<noteq> DQ) v"
          by auto
        have "filter (\<lambda>c. c \<noteq> DQ) t = filter (\<lambda>c. c \<noteq> DQ) v"
          using Cons True uv by simp
        with j join_last_append [of "[COMMA]" currentRow fld "[DQ]"]
        have "filter (\<lambda>c. c \<noteq> DQ) (join [COMMA] rec)
               = filter (\<lambda>c. c \<noteq> DQ) (join [COMMA] (currentRow @ [fld]))
                 @ filter (\<lambda>c. c \<noteq> DQ) t"
          by simp
        with step r show ?thesis by auto
      next
        case False
        then have step: "resume (rows, currentRow, fld, q) t
            = resume (rows, currentRow, fld, \<not> q) u"
          using Cons True by (auto simp add: resume_step [where c = DQ])
        have "(\<exists>c\<in>set u. c \<noteq> DQ) \<or> fld \<noteq> [] \<or> currentRow \<noteq> []"
          using less.prems(3) Cons True by auto
        from ih [where v = u and ro = currentRow and fl = fld and qq = "\<not> q"] this obtain rec where
          "resume (rows, currentRow, fld, \<not> q) u = rows @ [rec]"
          "filter (\<lambda>c. c \<noteq> DQ) (join [COMMA] rec)
               = filter (\<lambda>c. c \<noteq> DQ) (join [COMMA] (currentRow @ [fld]))
                 @ filter (\<lambda>c. c \<noteq> DQ) u"
          by auto
        with step Cons True show ?thesis by auto
      qed
    next
      case nq: False
      show ?thesis
      proof (cases "c = COMMA \<and> \<not> q")
        case True
        then have step: "resume (rows, currentRow, fld, q) t
            = resume (rows, currentRow @ [fld], [], q) u"
          using Cons by (simp add: resume_step [where c = COMMA])
        from ih [where v = u and ro = "currentRow @ [fld]" and fl = "[]" and qq = q] obtain rec where
          r: "resume (rows, currentRow @ [fld], [], q) u = rows @ [rec]"
          and j: "filter (\<lambda>c. c \<noteq> DQ) (join [COMMA] rec)
               = filter (\<lambda>c. c \<noteq> DQ) (join [COMMA] ((currentRow @ [fld]) @ [[]]))
                 @ filter (\<lambda>c. c \<noteq> DQ) u"
          by auto
        have "join [COMMA] ((currentRow @ [fld]) @ [[]]) = join [COMMA] (currentRow @ [fld]) @ [COMMA]"
          using join_snoc [of "currentRow @ [fld]" "[COMMA]" "[]"] by simp
        with j True Cons have "filter (\<lambda>c. c \<noteq> DQ) (join [COMMA] rec)
               = filter (\<lambda>c. c \<noteq> DQ) (join [COMMA] (currentRow @ [fld]))
                 @ filter (\<lambda>c. c \<noteq> DQ) t"
          by simp
        with step r show ?thesis by auto
      next
        case False
        then have step: "resume (rows, currentRow, fld, q) t
            = resume (rows, currentRow, fld @ [c], q) u"
          using Cons nq c by (auto simp add: resume_step [where c = c])
        from ih [where v = u and ro = currentRow and fl = "fld @ [c]" and qq = q] obtain rec where
          r: "resume (rows, currentRow, fld @ [c], q) u = rows @ [rec]"
          and j: "filter (\<lambda>c. c \<noteq> DQ) (join [COMMA] rec)
               = filter (\<lambda>c. c \<noteq> DQ) (join [COMMA] (currentRow @ [fld @ [c]]))
                 @ filter (\<lambda>c. c \<noteq> DQ) u"
          by auto
        from j join_last_append [of "[COMMA]" currentRow fld "[c]"] nq Cons
        have "filter (\<lambda>c. c \<noteq> DQ) (join [COMMA] rec)
               = filter (\<lambda>c. c \<noteq> DQ) (join [COMMA] (currentRow @ [fld]))
                 @ filter (\<lambda>c. c \<noteq> DQ) t"
          by simp
        with step r show ?thesis by auto
      qed
    qed
  qed
qed

lemma resume_reaches_tail:
  assumes "t \<noteq> []" and "hd t \<noteq> LF"
  shows "\<exists>st' t'. resume st (s @ t) = resume st' t' \<and> (t' = t \<or> (hd t = DQ \<and> t' = tl t))"
proof (induction "length s" arbitrary: s st rule: less_induct)
  case less
  show ?case
  proof (cases s)
    case Nil
    then show ?thesis by (intro exI [of _ st] exI [of _ t]) simp
  next
    case (Cons c cs)
    from resume_step_cases [of st c "cs @ t"]
    consider (one) st' where "resume st (c # cs @ t) = resume st' (cs @ t)"
      | (two) st' where "cs @ t \<noteq> []" "hd (cs @ t) = DQ \<or> hd (cs @ t) = LF"
          "resume st (c # cs @ t) = resume st' (tl (cs @ t))"
      by blast
    then show ?thesis
    proof cases
      case one
      have "length cs < length s" using Cons by simp
      from less [OF this, of st'] obtain st'' t' where
        "resume st' (cs @ t) = resume st'' t'" "t' = t \<or> (hd t = DQ \<and> t' = tl t)"
        by blast
      with one Cons show ?thesis by (intro exI [of _ st''] exI [of _ t']) simp
    next
      case two
      show ?thesis
      proof (cases "cs = []")
        case True
        with two assms have "hd t = DQ" "resume st (c # cs @ t) = resume st' (tl t)"
          by simp_all
        with Cons True show ?thesis by (intro exI [of _ st'] exI [of _ "tl t"]) simp
      next
        case ne: False
        then have tl: "tl (cs @ t) = tl cs @ t" by simp
        have "length (tl cs) < length s" using Cons ne by (cases cs) simp_all
        from less [OF this, of st'] obtain st'' t' where
          "resume st' (tl cs @ t) = resume st'' t'" "t' = t \<or> (hd t = DQ \<and> t' = tl t)"
          by blast
        with two(3) tl Cons show ?thesis by (intro exI [of _ st''] exI [of _ t']) simp
      qed
    qed
  qed
qed

lemma parseCSV_trailing_content:
  assumes "LF \<notin> set t" and "CR \<notin> set t" and "\<exists>c\<in>set t. c \<noteq> DQ"
  shows "\<exists>rows' rec pre. parseCSV (s @ t) = rows' @ [rec]
           \<and> filter (\<lambda>c. c \<noteq> DQ) (join [COMMA] rec) = pre @ filter (\<lambda>c. c \<noteq> DQ) t"
proof -
  have ne: "t \<noteq> []" using assms(3) by auto
  have hd: "hd t \<noteq> LF" using assms(1) ne by (cases t) auto
  have start: "parseCSV (s @ t) = resume ([], [], [], False) (s @ t)"
    by (simp add: parseCSV_def resume_def)
  from resume_reaches_tail [OF ne hd, of "([], [], [], False)" s]
  obtain st' t' where
    "resume ([], [], [], False) (s @ t) = resume st' t'"
    and t': "t' = t \<or> (hd t = DQ \<and> t' = tl t)"
    by blast
  with start have run: "parseCSV (s @ t) = resume st' t'" by simp
  obtain rows' row' fld' q' where st': "st' = (rows', row', fld', q')"
    by (cases st')
  have props: "LF \<notin> set t' \<and> CR \<notin> set t' \<and> (\<exists>c\<in>set t'. c \<noteq> DQ)
      \<and> filter (\<lambda>c. c \<noteq> DQ) t' = filter (\<lambda>c. c \<noteq> DQ) t"
  proof (cases "t' = t")
    case True
    with assms show ?thesis by simp
  next
    case False
    with t' have "hd t = DQ" and "t' = tl t" by simp_all
    with ne have tt: "t = DQ # t'" by (cases t) simp_all
    have "LF \<notin> set t'" "CR \<notin> set t'" "\<exists>c\<in>set t'. c \<noteq> DQ"
      using assms unfolding tt by simp_all
    moreover have "filter (\<lambda>c. c \<noteq> DQ) t' = filter (\<lambda>c. c \<noteq> DQ) t"
      unfolding tt by simp
    ultimately show ?thesis by simp
  qed
  then have a: "LF \<notin> set t'" and b: "CR \<notin> set t'"
    and c: "(\<exists>c\<in>set t'. c \<noteq> DQ) \<or> fld' \<noteq> [] \<or> row' \<noteq> []"
    and flt: "filter (\<lambda>c. c \<noteq> DQ) t' = filter (\<lambda>c. c \<noteq> DQ) t"
    by simp_all
  from resume_tail_quoted [OF a b c, of rows' q'] obtain rec where
    r: "resume (rows', row', fld', q') t' = rows' @ [rec]"
    and j: "filter (\<lambda>c. c \<noteq> DQ) (join [COMMA] rec)
       = filter (\<lambda>c. c \<noteq> DQ) (join [COMMA] (row' @ [fld'])) @ filter (\<lambda>c. c \<noteq> DQ) t'"
    by blast
  have "parseCSV (s @ t) = rows' @ [rec]"
    using run st' r by simp
  moreover have "filter (\<lambda>c. c \<noteq> DQ) (join [COMMA] rec)
       = filter (\<lambda>c. c \<noteq> DQ) (join [COMMA] (row' @ [fld'])) @ filter (\<lambda>c. c \<noteq> DQ) t"
    using j flt by simp
  ultimately show ?thesis by blast
qed


section \<open>The claims\<close>

text \<open>
  Claim C1, as the code has it. When the parsed table has a header row and no cell of the
  pruned header is exactly \<open>Variant SKU\<close>, every data row is dropped: the transformed
  table is the pruned header row alone. The export then succeeds with \<open>rowCount = 0\<close>
  and \<open>data\<close> holding that one row: as CSV for a name without the suffix \<open>.xlsx\<close>, and
  as a workbook where the writer returns one. The failure \<open>No data to export\<close> is
  returned only for a parsed table without any row, and it is returned for every such
  table.
\<close>

theorem no_sku_column_keeps_header_only:
  "(provided payload \<and> fileBuffer_of e payload = (s1, Continue content)
      \<and> read_rows e (endsWith (toLowerCase name) ''.xlsx'')
           (endsWith (toLowerCase name) ''.csv'') content = (s2, Continue (header # rest))
      \<and> (\<forall>h\<in>set (prune header header). js_String h \<noteq> ''Variant SKU'')
    \<longrightarrow> transformData (header # rest) = [prune header header]
       \<and> (\<not> endsWith (toLowerCase name) ''.xlsx'' \<longrightarrow>
            snd (createExport e payload (Some name))
              = Returned (Success (replace_suffix_i ''.csv'' ''-export.csv'' name)
                  (rowToCSV (prune header header)) 0 [prune header header]))
       \<and> (\<forall>ob. endsWith (toLowerCase name) ''.xlsx'' \<longrightarrow>
            xlsx_write e [prune header header] = Some ob \<longrightarrow>
            snd (createExport e payload (Some name))
              = Returned (Success (replace_suffix_i ''.xlsx'' ''-export.xlsx'' name)
                  ob 0 [prune header header])))
   \<and> (createExport e payload fname = (steps, Returned (Failure ''No data to export''))
        \<longrightarrow> (\<exists>name' content'. fname = Some name'
               \<and> snd (fileBuffer_of e payload) = Continue content'
               \<and> snd (read_rows e (endsWith (toLowerCase name') ''.xlsx'')
                        (endsWith (toLowerCase name') ''.csv'') content') = Continue []))
   \<and> (provided payload \<and> fileBuffer_of e payload = (s1, Continue content)
        \<and> read_rows e (endsWith (toLowerCase name) ''.xlsx'')
             (endsWith (toLowerCase name) ''.csv'') content = (s2, Continue [])
      \<longrightarrow> snd (createExport e payload (Some name)) = Returned (Failure ''No data to export''))"
proof (intro conjI)
  show "provided payload \<and> fileBuffer_of e payload = (s1, Continue content)
      \<and> read_rows e (endsWith (toLowerCase name) ''.xlsx'')
           (endsWith (toLowerCase name) ''.csv'') content = (s2, Continue (header # rest))
      \<and> (\<forall>h\<in>set (prune header header). js_String h \<noteq> ''Variant SKU'')
    \<longrightarrow> transformData (header # rest) = [prune header header]
       \<and> (\<not> endsWith (toLowerCase name) ''.xlsx'' \<longrightarrow>
            snd (createExport e payload (Some name))
              = Returned (Success (replace_suffix_i ''.csv'' ''-export.csv'' name)
                  (rowToCSV (prune header header)) 0 [prune header header]))
       \<and> (\<forall>ob. endsWith (toLowerCase name) ''.xlsx'' \<longrightarrow>
            xlsx_write e [prune header header] = Some ob \<longrightarrow>
            snd (createExport e payload (Some name))
              = Returned (Success (replace_suffix_i ''.xlsx'' ''-export.xlsx'' name)
                  ob 0 [prune header header]))"
  proof
    assume h: "provided payload \<and> fileBuffer_of e payload = (s1, Continue content)
      \<and> read_rows e (endsWith (toLowerCase name) ''.xlsx'')
           (endsWith (toLowerCase name) ''.csv'') content = (s2, Continue (header # rest))
      \<and> (\<forall>h\<in>set (prune header header). js_String h \<noteq> ''Variant SKU'')"
    then have p: "provided payload" and fb: "fileBuffer_of e payload = (s1, Continue content)"
      and rr: "read_rows e (endsWith (toLowerCase name) ''.xlsx'')
           (endsWith (toLowerCase name) ''.csv'') content = (s2, Continue (header # rest))"
      and no: "\<forall>h\<in>set (prune header header). js_String h \<noteq> ''Variant SKU''"
      by simp_all
    have vi: "variantSKUIndex (prune header header) = - 1"
      unfolding variantSKUIndex_def findIndex_def
      using no by (intro findIndex_from_none) simp
    have td: "transformData (header # rest) = [prune header header]"
      by (simp add: transformData_Cons vi sku_text_minus_one)
    have "snd (createExport e payload (Some name))
          = snd (generate e (endsWith (toLowerCase name) ''.xlsx'') name [prune header header])"
      using createExport_rows [OF p fb rr] td by simp
    then show "transformData (header # rest) = [prune header header]
       \<and> (\<not> endsWith (toLowerCase name) ''.xlsx'' \<longrightarrow>
            snd (createExport e payload (Some name))
              = Returned (Success (replace_suffix_i ''.csv'' ''-export.csv'' name)
                  (rowToCSV (prune header header)) 0 [prune header header]))
       \<and> (\<forall>ob. endsWith (toLowerCase name) ''.xlsx'' \<longrightarrow>
            xlsx_write e [prune header header] = Some ob \<longrightarrow>
            snd (createExport e payload (Some name))
              = Returned (Success (replace_suffix_i ''.xlsx'' ''-export.xlsx'' name)
                  ob 0 [prune header header]))"
      using td by (simp add: generate_def)
  qed
next
  show "createExport e payload fname = (steps, Returned (Failure ''No data to export''))
        \<longrightarrow> (\<exists>name' content'. fname = Some name'
               \<and> snd (fileBuffer_of e payload) = Continue content'
               \<and> snd (read_rows e (endsWith (toLowerCase name') ''.xlsx'')
                        (endsWith (toLowerCase name') ''.csv'') content') = Continue [])"
    using createExport_no_data by blast
next
  show "provided payload \<and> fileBuffer_of e payload = (s1, Continue content)
        \<and> read_rows e (endsWith (toLowerCase name) ''.xlsx'')
             (endsWith (toLowerCase name) ''.csv'') content = (s2, Continue [])
      \<longrightarrow> snd (createExport e payload (Some name)) = Returned (Failure ''No data to export'')"
    using createExport_empty_table by blast
qed

text \<open>
  The theorem at a CSV input with the header \<open>Handle,Title\<close> and one data row, and at a
  content of one line feed, which parses to no row.
\<close>

theorem no_sku_column_keeps_header_only_witness:
  "read_rows sample_env (endsWith (toLowerCase ''p.csv'') ''.xlsx'')
      (endsWith (toLowerCase ''p.csv'') ''.csv'') (''Handle,Title'' @ [LF] @ ''h1,t1'' @ [LF])
     = ([ParseCSV], Continue ([Str ''Handle'', Str ''Title''] # [[Str ''h1'', Str ''t1'']]))
   \<and> transformData ([Str ''Handle'', Str ''Title''] # [[Str ''h1'', Str ''t1'']])
       = [[Str ''Handle'', Str ''Title'']]
   \<and> snd (createExport sample_env (BufferFile (''Handle,Title'' @ [LF] @ ''h1,t1'' @ [LF]))
            (Some ''p.csv''))
       = Returned (Success ''p-export.csv'' ''Handle,Title'' 0 [[Str ''Handle'', Str ''Title'']])
   \<and> createExport sample_env (BufferFile [LF]) (Some ''p.csv'')
       = ([ParseCSV, TransformData], Returned (Failure ''No data to export''))
   \<and> snd (read_rows sample_env (endsWith (toLowerCase ''p.csv'') ''.xlsx'')
            (endsWith (toLowerCase ''p.csv'') ''.csv'') [LF]) = Continue []"
proof -
  let ?input = "''Handle,Title'' @ [LF] @ ''h1,t1'' @ [LF]"
  let ?header = "[Str ''Handle'', Str ''Title'']"
  have p: "provided (BufferFile ?input)" by simp
  have fb: "fileBuffer_of sample_env (BufferFile ?input) = ([], Continue ?input)" by simp
  have rr: "read_rows sample_env (endsWith (toLowerCase ''p.csv'') ''.xlsx'')
      (endsWith (toLowerCase ''p.csv'') ''.csv'') ?input
     = ([ParseCSV], Continue (?header # [[Str ''h1'', Str ''t1'']]))"
    by code_simp
  have pr: "prune ?header ?header = ?header" by code_simp
  have no: "\<forall>h\<in>set (prune ?header ?header). js_String h \<noteq> ''Variant SKU''"
    unfolding pr by simp
  have nx: "\<not> endsWith (toLowerCase ''p.csv'') ''.xlsx''" by code_simp
  have r1: "replace_suffix_i ''.csv'' ''-export.csv'' ''p.csv'' = ''p-export.csv''" by code_simp
  have r2: "rowToCSV ?header = ''Handle,Title''" by code_simp
  have first: "transformData (?header # [[Str ''h1'', Str ''t1'']]) = [?header]
     \<and> snd (createExport sample_env (BufferFile ?input) (Some ''p.csv''))
       = Returned (Success ''p-export.csv'' ''Handle,Title'' 0 [?header])"
    using no_sku_column_keeps_header_only [where e = sample_env and payload = "BufferFile ?input"
        and name = "''p.csv''" and ?s1.0 = "[]" and ?s2.0 = "[ParseCSV]" and content = ?input
        and header = ?header and rest = "[[Str ''h1'', Str ''t1'']]"] p fb rr no nx
    unfolding pr r1 r2 by simp
  have run: "createExport sample_env (BufferFile [LF]) (Some ''p.csv'')
       = ([ParseCSV, TransformData], Returned (Failure ''No data to export''))"
    by code_simp
  have second: "snd (read_rows sample_env (endsWith (toLowerCase ''p.csv'') ''.xlsx'')
            (endsWith (toLowerCase ''p.csv'') ''.csv'') [LF]) = Continue []"
    using no_sku_column_keeps_header_only [where e = sample_env and payload = "BufferFile [LF]"
        and fname = "Some ''p.csv''" and steps = "[ParseCSV, TransformData]"] run
    by auto
  from first rr run second show ?thesis by simp
qed

text \<open>
  Claim C1 as stated fails: for the CSV text of a header \<open>Handle,Title\<close> and one data
  row, the result is a success with \<open>rowCount = 0\<close>, not the failure
  \<open>No data to export\<close>.
\<close>

theorem no_sku_column_counterexample:
  "parseCSV (''Handle,Title'' @ [LF] @ ''h1,t1'' @ [LF]) = [[''Handle'', ''Title''], [''h1'', ''t1'']]
   \<and> ''Variant SKU'' \<notin> set [''Handle'', ''Title'']
   \<and> createExport sample_env (BufferFile (''Handle,Title'' @ [LF] @ ''h1,t1'' @ [LF])) (Some ''p.csv'')
       = ([ParseCSV, TransformData],
          Returned (Success ''p-export.csv'' ''Handle,Title'' 0 [[Str ''Handle'', Str ''Title'']]))
   \<and> snd (createExport sample_env (BufferFile (''Handle,Title'' @ [LF] @ ''h1,t1'' @ [LF]))
            (Some ''p.csv''))
       \<noteq> Returned (Failure ''No data to export'')"
  by code_simp

text \<open>
  Claim C2, as the code has it. Without a file the result is the failure
  \<open>No file provided\<close>, whatever the filename is. With a file, \<open>createExport\<close> returns
  a result object whenever the filename is a string and none of the library calls it
  makes throws (\<open>fs.readFileSync\<close> on a path, \<open>Buffer.from\<close> on the buffer of a holder,
  and for a name ending in \<open>.xlsx\<close> the workbook reader, and the writer on a table that
  is not empty); a failure it returns carries one of the messages
  \<open>Invalid file format\<close>, \<open>Unsupported file format\<close> and \<open>No data to export\<close>. There is
  no exception handler: with a file, a filename that is not a string makes
  \<open>filename.toLowerCase\<close> throw, and an exception of \<open>fs.readFileSync\<close>, of
  \<open>Buffer.from\<close>, of the workbook reader or of the workbook writer leaves \<open>createExport\<close>
  as it is.
\<close>

theorem createExport_returns:
  "(\<not> provided payload \<longrightarrow> createExport e payload fname = ([], Returned (Failure ''No file provided'')))
   \<and> (provided payload \<and> fname = Some name
        \<and> (\<forall>p. payload = PathFile p \<longrightarrow> readFileSync e p \<noteq> None)
        \<and> payload \<noteq> HolderFile None
        \<and> (endsWith (toLowerCase name) ''.xlsx'' \<longrightarrow>
             (\<forall>b. snd (fileBuffer_of e payload) = Continue b \<longrightarrow>
                (\<exists>rows. xlsx_read e b = Some rows
                   \<and> (transformData rows \<noteq> [] \<longrightarrow> xlsx_write e (transformData rows) \<noteq> None))))
      \<longrightarrow> (\<exists>steps r. createExport e payload fname = (steps, Returned r)
             \<and> ((\<exists>f b n d. r = Success f b n d)
                \<or> r = Failure ''Invalid file format''
                \<or> r = Failure ''Unsupported file format''
                \<or> r = Failure ''No data to export'')))
   \<and> (provided payload \<longrightarrow> createExport e payload None = ([], Threw TypeError))
   \<and> (p \<noteq> [] \<and> readFileSync e p = None \<longrightarrow>
        createExport e (PathFile p) (Some name) = ([ReadFileSync p], Threw FsError))
   \<and> createExport e (HolderFile None) (Some name) = ([BufferFrom], Threw TypeError)
   \<and> (provided payload \<and> fileBuffer_of e payload = (s1, Continue b)
        \<and> endsWith (toLowerCase name) ''.xlsx'' \<and> xlsx_read e b = None \<longrightarrow>
        createExport e payload (Some name) = (s1 @ [XlsxRead], Threw XlsxError))
   \<and> (provided payload \<and> fileBuffer_of e payload = (s1, Continue b)
        \<and> endsWith (toLowerCase name) ''.xlsx'' \<and> xlsx_read e b = Some rows
        \<and> transformData rows \<noteq> [] \<and> xlsx_write e (transformData rows) = None \<longrightarrow>
        createExport e payload (Some name)
          = (s1 @ [XlsxRead, TransformData, XlsxWrite], Threw XlsxError))"
proof (intro conjI impI)
  assume "\<not> provided payload"
  then show "createExport e payload fname = ([], Returned (Failure ''No file provided''))"
    by (rule createExport_not_provided)
next
  assume "provided payload"
  then show "createExport e payload None = ([], Threw TypeError)"
    by (rule createExport_no_name)
next
  assume "p \<noteq> [] \<and> readFileSync e p = None"
  then show "createExport e (PathFile p) (Some name) = ([ReadFileSync p], Threw FsError)"
    using createExport_normalize_throws [of "PathFile p" e "[ReadFileSync p]" FsError name]
    by simp
next
  show "createExport e (HolderFile None) (Some name) = ([BufferFrom], Threw TypeError)"
    using createExport_normalize_throws [of "HolderFile None" e "[BufferFrom]" TypeError name]
    by simp
next
  assume "provided payload \<and> fileBuffer_of e payload = (s1, Continue b)
        \<and> endsWith (toLowerCase name) ''.xlsx'' \<and> xlsx_read e b = None"
  then show "createExport e payload (Some name) = (s1 @ [XlsxRead], Threw XlsxError)"
    using createExport_read_throws by blast
next
  assume "provided payload \<and> fileBuffer_of e payload = (s1, Continue b)
        \<and> endsWith (toLowerCase name) ''.xlsx'' \<and> xlsx_read e b = Some rows
        \<and> transformData rows \<noteq> [] \<and> xlsx_write e (transformData rows) = None"
  then show "createExport e payload (Some name)
          = (s1 @ [XlsxRead, TransformData, XlsxWrite], Threw XlsxError)"
    using createExport_write_throws by blast
next
  assume h: "provided payload \<and> fname = Some name
        \<and> (\<forall>p. payload = PathFile p \<longrightarrow> readFileSync e p \<noteq> None)
        \<and> payload \<noteq> HolderFile None
        \<and> (endsWith (toLowerCase name) ''.xlsx'' \<longrightarrow>
             (\<forall>b. snd (fileBuffer_of e payload) = Continue b \<longrightarrow>
                (\<exists>rows. xlsx_read e b = Some rows
                   \<and> (transformData rows \<noteq> [] \<longrightarrow> xlsx_write e (transformData rows) \<noteq> None))))"
  let ?x = "endsWith (toLowerCase name) ''.xlsx''"
  let ?c = "endsWith (toLowerCase name) ''.csv''"
  let ?goal = "\<exists>steps r. createExport e payload fname = (steps, Returned r)
             \<and> ((\<exists>f b n d. r = Success f b n d)
                \<or> r = Failure ''Invalid file format''
                \<or> r = Failure ''Unsupported file format''
                \<or> r = Failure ''No data to export'')"
  from h have p: "provided payload" and n: "fname = Some name" by simp_all
  from h fileBuffer_of_no_throw [of payload e] obtain s1 fl where
    fb: "fileBuffer_of e payload = (s1, fl)" and nothrow: "\<forall>x. fl \<noteq> Throw x"
    by blast
  show ?goal
  proof (cases fl)
    case (Throw x)
    with nothrow show ?thesis by simp
  next
    case (Return r)
    with createExport_invalid [OF p, of e s1 r name] fb n show ?thesis by simp
  next
    case (Continue b)
    with fb have fbc: "fileBuffer_of e payload = (s1, Continue b)" by simp
    have rows: "\<exists>s2 rows. read_rows e ?x ?c b = (s2, Continue rows)
                  \<and> (?x \<and> transformData rows \<noteq> [] \<longrightarrow> xlsx_write e (transformData rows) \<noteq> None)"
      if "?x \<or> ?c"
    proof (cases ?x)
      case True
      with h fbc obtain rows where "xlsx_read e b = Some rows"
        "transformData rows \<noteq> [] \<longrightarrow> xlsx_write e (transformData rows) \<noteq> None" by auto
      with True show ?thesis by (simp add: read_rows_def)
    next
      case False
      with that show ?thesis by (simp add: read_rows_def)
    qed
    show ?thesis
    proof (cases "?x \<or> ?c")
      case False
      with createExport_unsupported [OF p fbc, of name] n show ?thesis by simp
    next
      case True
      from rows [OF True] obtain s2 rs where
        rr: "read_rows e ?x ?c b = (s2, Continue rs)"
        and w: "?x \<and> transformData rs \<noteq> [] \<longrightarrow> xlsx_write e (transformData rs) \<noteq> None"
        by blast
      from generate_Returned [OF w, of name] obtain r where
        g: "snd (generate e ?x name (transformData rs)) = Returned r" by blast
      then have "(\<exists>f b n d. r = Success f b n d) \<or> r = Failure ''No data to export''"
        by (auto simp: generate_def split: if_splits option.splits)
      with createExport_rows [OF p fbc rr] g n show ?thesis by auto
    qed
  qed
qed

text \<open>
  The theorem at the workbook of the sample environment, at a filename that is not a
  string, at a path that cannot be read and at a holder whose buffer is rejected.
\<close>

theorem createExport_returns_witness:
  "provided (BufferFile ''PK'')
   \<and> endsWith (toLowerCase ''book.xlsx'') ''.xlsx''
   \<and> (\<exists>steps r. createExport sample_env (BufferFile ''PK'') (Some ''book.xlsx'')
                   = (steps, Returned r))
   \<and> createExport sample_env (BufferFile ''PK'') None = ([], Threw TypeError)
   \<and> readFileSync sample_env ''missing.csv'' = None
   \<and> createExport sample_env (PathFile ''missing.csv'') (Some ''missing.csv'')
       = ([ReadFileSync ''missing.csv''], Threw FsError)
   \<and> createExport sample_env (HolderFile None) (Some ''p.csv'') = ([BufferFrom], Threw TypeError)"
proof -
  have x: "endsWith (toLowerCase ''book.xlsx'') ''.xlsx''" by code_simp
  have rd: "xlsx_read sample_env ''PK''
      = Some [[Str ''Handle'', Str ''Variant SKU''], [Str ''h1'', Num ''1001''], [Str ''h2'']]"
    by (simp add: sample_env_def)
  have wr: "xlsx_write sample_env t \<noteq> None" for t
    by (simp add: sample_env_def)
  have lib: "endsWith (toLowerCase ''book.xlsx'') ''.xlsx'' \<longrightarrow>
      (\<forall>b. snd (fileBuffer_of sample_env (BufferFile ''PK'')) = Continue b \<longrightarrow>
         (\<exists>rows. xlsx_read sample_env b = Some rows
                \<and> (transformData rows \<noteq> [] \<longrightarrow> xlsx_write sample_env (transformData rows) \<noteq> None)))"
    using rd wr by simp
  have miss: "readFileSync sample_env ''missing.csv'' = None"
    by (simp add: sample_env_def)
  note returns = createExport_returns [where payload = "BufferFile ''PK''" and e = sample_env
      and fname = "Some ''book.xlsx''" and name = "''book.xlsx''" and p = "[]"
      and ?s1.0 = "[]" and b = "[]" and rows = "[]"]
  note throws = createExport_returns [where payload = "BufferFile ''PK''" and e = sample_env
      and p = "''missing.csv''" and name = "''missing.csv''" and fname = None
      and ?s1.0 = "[]" and b = "[]" and rows = "[]"]
  note holder = createExport_returns [where e = sample_env and name = "''p.csv''"
      and payload = NoFile and fname = None and p = "[]" and ?s1.0 = "[]" and b = "[]"
      and rows = "[]"]
  have a: "\<exists>steps r. createExport sample_env (BufferFile ''PK'') (Some ''book.xlsx'')
                   = (steps, Returned r)"
    using returns lib x by blast
  have b: "createExport sample_env (BufferFile ''PK'') None = ([], Threw TypeError)"
    using throws by simp
  have c: "createExport sample_env (PathFile ''missing.csv'') (Some ''missing.csv'')
       = ([ReadFileSync ''missing.csv''], Threw FsError)"
    using throws miss by simp
  have d: "createExport sample_env (HolderFile None) (Some ''p.csv'') = ([BufferFrom], Threw TypeError)"
    using holder by simp
  from a b c d x miss show ?thesis by simp
qed

text \<open>
  Claim C2 as stated fails: with a file and a filename that is not a string,
  \<open>filename.toLowerCase\<close> throws and nothing catches the exception.
\<close>

theorem createExport_returns_counterexample:
  "provided (BufferFile ''a,b'')
   \<and> createExport sample_env (BufferFile ''a,b'') None = ([], Threw TypeError)"
  by code_simp


text \<open>
  Claim C3, as the code has it. The input is normalised before the format is looked at.
  For every provided file that normalisation turns into a buffer, a filename whose
  suffix is neither \<open>.csv\<close> nor \<open>.xlsx\<close> (case-insensitively) gives the failure
  \<open>Unsupported file format\<close>, and no parsing, transformation or writing is attempted:
  the only call made is the one of the normalisation (none for a \<open>Buffer\<close>, the read of
  the file for a path).
\<close>

theorem unsupported_format_after_normalization:
  assumes "provided file" and "fileBuffer_of e file = (s1, Continue b)"
    and "\<not> endsWith (toLowerCase name) ''.xlsx''" and "\<not> endsWith (toLowerCase name) ''.csv''"
  shows "createExport e file (Some name) = (s1, Returned (Failure ''Unsupported file format''))
       \<and> XlsxRead \<notin> set s1 \<and> ParseCSV \<notin> set s1 \<and> TransformData \<notin> set s1 \<and> XlsxWrite \<notin> set s1
       \<and> (\<forall>b'. file = BufferFile b' \<longrightarrow> s1 = [])
       \<and> (\<forall>p. file = PathFile p \<longrightarrow> s1 = [ReadFileSync p])"
  using createExport_unsupported [OF assms] fileBuffer_of_steps [OF assms(2)]
  by (auto split: js_file.splits)

text \<open>The theorem at a readable path and at a buffer, with the filename \<open>data.txt\<close>.\<close>

theorem unsupported_format_after_normalization_witness:
  "provided (PathFile ''products.csv'')
   \<and> \<not> endsWith (toLowerCase ''data.txt'') ''.xlsx''
   \<and> \<not> endsWith (toLowerCase ''data.txt'') ''.csv''
   \<and> createExport sample_env (PathFile ''products.csv'') (Some ''data.txt'')
       = ([ReadFileSync ''products.csv''], Returned (Failure ''Unsupported file format''))
   \<and> createExport sample_env (BufferFile ''a,b'') (Some ''data.txt'')
       = ([], Returned (Failure ''Unsupported file format''))"
proof -
  have p: "provided (PathFile ''products.csv'')" by simp
  have fb: "fileBuffer_of sample_env (PathFile ''products.csv'')
      = ([ReadFileSync ''products.csv''],
         Continue (''Handle,Variant SKU'' @ [LF] @ ''h1,SKU1'' @ [LF]))"
    by (simp add: sample_env_def)
  have p': "provided (BufferFile ''a,b'')" by simp
  have fb': "fileBuffer_of sample_env (BufferFile ''a,b'') = ([], Continue ''a,b'')" by simp
  have nx: "\<not> endsWith (toLowerCase ''data.txt'') ''.xlsx''" by code_simp
  have nc: "\<not> endsWith (toLowerCase ''data.txt'') ''.csv''" by code_simp
  from unsupported_format_after_normalization [OF p fb nx nc]
    unsupported_format_after_normalization [OF p' fb' nx nc] p nx nc
  show ?thesis by simp
qed

text \<open>
  Claim C3 as stated fails: with the filename \<open>data.txt\<close>, a provided file of an
  unrecognised shape gives \<open>Invalid file format\<close>; a path is read from disk before the
  format is rejected, and the exception of a failing read escapes.
\<close>

theorem unsupported_format_counterexample:
  "provided OtherFile
   \<and> \<not> endsWith (toLowerCase ''data.txt'') ''.csv''
   \<and> \<not> endsWith (toLowerCase ''data.txt'') ''.xlsx''
   \<and> createExport sample_env OtherFile (Some ''data.txt'')
       = ([], Returned (Failure ''Invalid file format''))
   \<and> createExport sample_env (PathFile ''products.csv'') (Some ''data.txt'')
       = ([ReadFileSync ''products.csv''], Returned (Failure ''Unsupported file format''))
   \<and> createExport sample_env (PathFile ''missing.csv'') (Some ''data.txt'')
       = ([ReadFileSync ''missing.csv''], Threw FsError)"
  by code_simp

text \<open>
  Claim C4. For a CSV input (any provided file that normalises to the content, and a
  filename ending in \<open>.csv\<close> case-insensitively) whose header contains \<open>Variant SKU\<close>
  and has no cell starting with a listed prefix, the export succeeds and its \<open>rowCount\<close>
  is the number of data rows minus the number of data rows whose SKU cell is empty or
  white space only, a missing cell counting as empty.
\<close>

theorem createExport_csv_rowCount:
  assumes "provided file" and "snd (fileBuffer_of e file) = Continue content"
    and "endsWith (toLowerCase name) ''.csv''"
    and "parseCSV content = header # rest"
    and "''Variant SKU'' \<in> set header"
    and "\<forall>h\<in>set header. \<forall>p\<in>set prefixes. \<not> startsWith h p"
  shows "\<exists>f b d. snd (createExport e file (Some name))
           = Returned (Success f b
               (int (length rest) - int (length (filter (\<lambda>r. blank (sku_cell header r)) rest))) d)"
proof -
  obtain s1 where fb: "fileBuffer_of e file = (s1, Continue content)"
    using assms(2) by (cases "fileBuffer_of e file") simp
  let ?rows = "map Str header # map (map Str) rest"
  have td: "transformData ?rows
      = map Str header # filter (\<lambda>r. sku_text (variantSKUIndex (map Str header)) r \<noteq> [])
           (map (map Str) rest)"
  proof -
    have "map (prune (map Str header)) (map (map Str) rest) = map (map Str) rest"
      by (induction rest) (simp_all add: prune_Str_id [OF assms(6)])
    then show ?thesis
      by (simp add: transformData_Cons prune_Str_id [OF assms(6)] del: map_map)
  qed
  have keep: "sku_text (variantSKUIndex (map Str header)) (map Str r) \<noteq> []
                \<longleftrightarrow> \<not> blank (sku_cell header r)" for r
    by (simp add: variantSKUIndex_Str [OF assms(5)] sku_text_Str js_trim_empty_iff
          blank_def sku_cell_def Let_def)
  have "filter (\<lambda>r. sku_text (variantSKUIndex (map Str header)) r \<noteq> []) (map (map Str) rest)
          = map (map Str) (filter (\<lambda>r. \<not> blank (sku_cell header r)) rest)"
    by (simp add: filter_map o_def keep)
  then have len: "int (length (transformData ?rows)) - 1
      = int (length rest) - int (length (filter (\<lambda>r. blank (sku_cell header r)) rest))"
    using sum_length_filter_compl [of "\<lambda>r. blank (sku_cell header r)" rest]
    by (simp add: td)
  have "snd (createExport e file (Some name))
          = snd (generate e (endsWith (toLowerCase name) ''.xlsx'') name (transformData ?rows))"
    using createExport_rows [OF assms(1) fb, of name "[ParseCSV]" ?rows]
      read_rows_csv [OF assms(3), of e content] assms(4) by simp
  also have "\<dots> = Returned (Success (replace_suffix_i ''.csv'' ''-export.csv'' name)
       (join [LF] (map rowToCSV (transformData ?rows)))
       (int (length (transformData ?rows)) - 1) (transformData ?rows))"
    using csv_not_xlsx [OF assms(3)] by (simp add: generate_def td)
  finally show ?thesis using len by auto
qed

text \<open>
  The theorem at an input of four data rows: one with a blank SKU, one too short, and two
  equal rows that are both counted.
\<close>

theorem createExport_csv_rowCount_witness:
  "parseCSV (''Handle,Variant SKU'' @ [LF] @ ''h1,SKU1'' @ [LF] @ ''h2,  '' @ [LF] @ ''h3'' @ [LF]
             @ ''h1,SKU1'')
     = [''Handle'', ''Variant SKU''] # [[''h1'', ''SKU1''], [''h2'', ''  ''], [''h3''], [''h1'', ''SKU1'']]
   \<and> ''Variant SKU'' \<in> set [''Handle'', ''Variant SKU'']
   \<and> (\<exists>f b d. snd (createExport sample_env
          (BufferFile (''Handle,Variant SKU'' @ [LF] @ ''h1,SKU1'' @ [LF] @ ''h2,  '' @ [LF]
             @ ''h3'' @ [LF] @ ''h1,SKU1''))
          (Some ''products.csv''))
        = Returned (Success f b 2 d))"
proof -
  let ?input = "''Handle,Variant SKU'' @ [LF] @ ''h1,SKU1'' @ [LF] @ ''h2,  '' @ [LF] @ ''h3'' @ [LF]
             @ ''h1,SKU1''"
  let ?header = "[''Handle'', ''Variant SKU'']"
  let ?rest = "[[''h1'', ''SKU1''], [''h2'', ''  ''], [''h3''], [''h1'', ''SKU1'']]"
  have p: "provided (BufferFile ?input)" by simp
  have fb: "snd (fileBuffer_of sample_env (BufferFile ?input)) = Continue ?input" by simp
  have c: "endsWith (toLowerCase ''products.csv'') ''.csv''" by code_simp
  have pc: "parseCSV ?input = ?header # ?rest" by code_simp
  have sku: "''Variant SKU'' \<in> set ?header" by simp
  have np: "\<forall>h\<in>set ?header. \<forall>p\<in>set prefixes. \<not> startsWith h p"
    by (simp add: prefixes_def startsWith_def)
  have n: "int (length ?rest) - int (length (filter (\<lambda>r. blank (sku_cell ?header r)) ?rest)) = 2"
    by code_simp
  from createExport_csv_rowCount [OF p fb c pc sku np] pc sku show ?thesis
    unfolding n by simp
qed

text \<open>
  Claim C5, as the code has it. For the CSV text of the three lines
  \<open>Handle,Variant SKU,Google Category\<close>, \<open>h1,SKU1,Cat\<close> and \<open>h2,,Cat2\<close>, each ended by a
  line feed, and a filename ending in \<open>.csv\<close>, the column \<open>Google Category\<close> is removed,
  the row \<open>h2\<close> is dropped, \<open>rowCount\<close> is 1 and the output buffer is the two lines
  \<open>Handle,Variant SKU\<close> and \<open>h1,SKU1\<close> with one line feed between them: the lines are
  joined with a line feed, and none follows the last line.
\<close>

theorem scenario_export:
  assumes "endsWith (toLowerCase name) ''.csv''"
  shows "createExport e
           (BufferFile (''Handle,Variant SKU,Google Category'' @ [LF] @ ''h1,SKU1,Cat'' @ [LF]
                        @ ''h2,,Cat2'' @ [LF]))
           (Some name)
         = ([ParseCSV, TransformData],
            Returned (Success (take (length name - 4) name @ ''-export.csv'')
              (''Handle,Variant SKU'' @ [LF] @ ''h1,SKU1'') 1
              [[Str ''Handle'', Str ''Variant SKU''], [Str ''h1'', Str ''SKU1'']]))"
proof -
  let ?input = "''Handle,Variant SKU,Google Category'' @ [LF] @ ''h1,SKU1,Cat'' @ [LF]
                        @ ''h2,,Cat2'' @ [LF]"
  let ?rows = "[[Str ''Handle'', Str ''Variant SKU'', Str ''Google Category''],
                  [Str ''h1'', Str ''SKU1'', Str ''Cat''], [Str ''h2'', Str [], Str ''Cat2'']]"
  have p: "provided (BufferFile ?input)" by simp
  have fb: "fileBuffer_of e (BufferFile ?input) = ([], Continue ?input)" by simp
  have rr: "read_rows e (endsWith (toLowerCase name) ''.xlsx'')
              (endsWith (toLowerCase name) ''.csv'') ?input = ([ParseCSV], Continue ?rows)"
    unfolding read_rows_csv [OF assms] scenario_parse by simp
  have nx: "\<not> endsWith (toLowerCase name) ''.xlsx''"
    using csv_not_xlsx [OF assms] .
  have g: "generate e False name [[Str ''Handle'', Str ''Variant SKU''], [Str ''h1'', Str ''SKU1'']]
      = ([], Returned (Success (take (length name - 4) name @ ''-export.csv'')
              (''Handle,Variant SKU'' @ [LF] @ ''h1,SKU1'') 1
              [[Str ''Handle'', Str ''Variant SKU''], [Str ''h1'', Str ''SKU1'']]))"
    unfolding generate_def scenario_csv using assms by (simp add: replace_csv)
  show ?thesis
    unfolding createExport_rows [OF p fb rr] scenario_transform using nx g by simp
qed

text \<open>The theorem at the filename \<open>products.csv\<close>.\<close>

theorem scenario_export_witness:
  "endsWith (toLowerCase ''products.csv'') ''.csv''
   \<and> createExport sample_env
           (BufferFile (''Handle,Variant SKU,Google Category'' @ [LF] @ ''h1,SKU1,Cat'' @ [LF]
                        @ ''h2,,Cat2'' @ [LF]))
           (Some ''products.csv'')
         = ([ParseCSV, TransformData],
            Returned (Success ''products-export.csv''
              (''Handle,Variant SKU'' @ [LF] @ ''h1,SKU1'') 1
              [[Str ''Handle'', Str ''Variant SKU''], [Str ''h1'', Str ''SKU1'']]))"
proof -
  have h: "endsWith (toLowerCase ''products.csv'') ''.csv''" by code_simp
  from scenario_export [OF h, of sample_env] h show ?thesis by simp
qed

text \<open>
  Claim C5 as stated fails: the output buffer does not end with a line feed.
\<close>

theorem scenario_export_counterexample:
  "createExport sample_env
           (BufferFile (''Handle,Variant SKU,Google Category'' @ [LF] @ ''h1,SKU1,Cat'' @ [LF]
                        @ ''h2,,Cat2'' @ [LF]))
           (Some ''products.csv'')
     \<noteq> ([ParseCSV, TransformData],
            Returned (Success ''products-export.csv''
              (''Handle,Variant SKU'' @ [LF] @ ''h1,SKU1'' @ [LF]) 1
              [[Str ''Handle'', Str ''Variant SKU''], [Str ''h1'', Str ''SKU1'']]))
   \<and> buffer (Success ''products-export.csv'' (''Handle,Variant SKU'' @ [LF] @ ''h1,SKU1'') 1
              [[Str ''Handle'', Str ''Variant SKU''], [Str ''h1'', Str ''SKU1'']])
      \<noteq> ''Handle,Variant SKU'' @ [LF] @ ''h1,SKU1'' @ [LF]"
  by code_simp

text \<open>
  Claim C6, as the code has it. From any state of the parser outside quotes, a field
  written in quotes with its quotes doubled is read back as the field, whatever
  characters it holds, provided the closing quote is not followed by another quote.
  Inside quotes a doubled quote adds one quote character to the field, and a comma, a
  line feed or a carriage return is added to the field as it is: it ends neither the
  field nor the record. Trailing content without a terminating newline (content with no
  newline character in it, after any content) yields a final record whenever it holds a
  character other than a quote: the last record, written with commas, ends with the
  trailing content, quote characters apart (and with the content itself when it holds
  no quote). For content that does not end inside quotes, a final line feed changes
  nothing in the result.
\<close>

theorem parseCSV_quoting:
  "(rest = [] \<or> hd rest \<noteq> DQ \<longrightarrow>
      parse_loop rows currentRow fld False (DQ # double_quotes f @ DQ # rest)
        = parse_loop rows currentRow (fld @ f) False rest)
   \<and> parse_loop rows currentRow fld True (DQ # DQ # cs)
        = parse_loop rows currentRow (fld @ [DQ]) True cs
   \<and> (c = COMMA \<or> c = LF \<or> c = CR \<longrightarrow>
        parse_loop rows currentRow fld True (c # cs)
          = parse_loop rows currentRow (fld @ [c]) True cs)
   \<and> (t \<noteq> [] \<and> DQ \<notin> set t \<and> LF \<notin> set t \<and> CR \<notin> set t \<longrightarrow>
        (\<exists>rows' rec pre. parseCSV (s @ t) = rows' @ [rec] \<and> join [COMMA] rec = pre @ t))
   \<and> (LF \<notin> set u \<and> CR \<notin> set u \<and> (\<exists>x\<in>set u. x \<noteq> DQ) \<longrightarrow>
        (\<exists>rows' rec pre. parseCSV (s @ u) = rows' @ [rec]
           \<and> filter (\<lambda>x. x \<noteq> DQ) (join [COMMA] rec) = pre @ filter (\<lambda>x. x \<noteq> DQ) u))
   \<and> (even (length (filter (\<lambda>c. c = DQ) s)) \<longrightarrow> parseCSV (s @ [LF]) = parseCSV s)"
proof (intro conjI impI)
  assume "rest = [] \<or> hd rest \<noteq> DQ"
  then show "parse_loop rows currentRow fld False (DQ # double_quotes f @ DQ # rest)
        = parse_loop rows currentRow (fld @ f) False rest"
    by (rule parse_loop_quoted_field)
next
  show "parse_loop rows currentRow fld True (DQ # DQ # cs)
        = parse_loop rows currentRow (fld @ [DQ]) True cs"
    by (rule parse_loop_escaped_quote)
next
  assume "c = COMMA \<or> c = LF \<or> c = CR"
  then have "c \<noteq> DQ" by auto
  then show "parse_loop rows currentRow fld True (c # cs)
          = parse_loop rows currentRow (fld @ [c]) True cs"
    by (rule parse_loop_append_char) simp
next
  assume "t \<noteq> [] \<and> DQ \<notin> set t \<and> LF \<notin> set t \<and> CR \<notin> set t"
  then show "\<exists>rows' rec pre. parseCSV (s @ t) = rows' @ [rec] \<and> join [COMMA] rec = pre @ t"
    using parseCSV_trailing_record by blast
next
  assume "LF \<notin> set u \<and> CR \<notin> set u \<and> (\<exists>x\<in>set u. x \<noteq> DQ)"
  then show "\<exists>rows' rec pre. parseCSV (s @ u) = rows' @ [rec]
           \<and> filter (\<lambda>x. x \<noteq> DQ) (join [COMMA] rec) = pre @ filter (\<lambda>x. x \<noteq> DQ) u"
    using parseCSV_trailing_content [of u s] by blast
next
  assume "even (length (filter (\<lambda>c. c = DQ) s))"
  then show "parseCSV (s @ [LF]) = parseCSV s"
    by (rule parseCSV_final_newline)
qed

text \<open>The theorem at concrete contents, with and without quotes in the last line.\<close>

theorem parseCSV_quoting_witness:
  "parseCSV ([DQ] @ ''a,'' @ [DQ, DQ] @ ''b'' @ [LF] @ ''c'' @ [DQ] @ '',d'')
     = [[''a,'' @ [DQ] @ ''b'' @ [LF] @ ''c'', ''d'']]
   \<and> parse_loop [] [] ''a'' True (COMMA # ''b'' @ [DQ]) = [[''a,b'']]
   \<and> (\<exists>rows' rec pre. parseCSV (''x,y'' @ [LF] @ ''h2,SKU2'') = rows' @ [rec]
         \<and> join [COMMA] rec = pre @ ''h2,SKU2'')
   \<and> (\<exists>rows' rec pre. parseCSV (''x,y'' @ [LF] @ ''h2,'' @ [DQ] @ ''SKU 2'' @ [DQ]) = rows' @ [rec]
         \<and> filter (\<lambda>x. x \<noteq> DQ) (join [COMMA] rec) = pre @ ''h2,SKU 2'')
   \<and> parseCSV (''x,y'' @ [LF] @ ''h2,'' @ [DQ] @ ''SKU 2'' @ [DQ])
       = [[''x'', ''y''], [''h2'', ''SKU 2'']]
   \<and> parseCSV (''x,'' @ [DQ] @ ''y'' @ [DQ] @ [LF]) = parseCSV (''x,'' @ [DQ] @ ''y'' @ [DQ])"
proof -
  note inst = parseCSV_quoting [where rest = "'',d''" and rows = "[]" and currentRow = "[]"
      and fld = "[]" and f = "''a,'' @ [DQ] @ ''b'' @ [LF] @ ''c''" and c = COMMA
      and cs = "''b'' @ [DQ]" and t = "''h2,SKU2''" and s = "''x,y'' @ [LF]"
      and u = "''h2,'' @ [DQ] @ ''SKU 2'' @ [DQ]"]
  note inst2 = parseCSV_quoting [where s = "''x,'' @ [DQ] @ ''y'' @ [DQ]" and t = "[]"
      and c = DQ and rest = "[DQ]" and u = "[]"]
  have q1: "parseCSV ([DQ] @ ''a,'' @ [DQ, DQ] @ ''b'' @ [LF] @ ''c'' @ [DQ] @ '',d'')
     = parse_loop [] [] (''a,'' @ [DQ] @ ''b'' @ [LF] @ ''c'') False '',d''"
    using inst by (simp add: parseCSV_def double_quotes_def)
  have q2: "parse_loop [] [] (''a,'' @ [DQ] @ ''b'' @ [LF] @ ''c'') False '',d''
      = [[''a,'' @ [DQ] @ ''b'' @ [LF] @ ''c'', ''d'']]"
    by code_simp
  have q3: "parse_loop [] [] ''a'' True (COMMA # ''b'' @ [DQ]) = [[''a,b'']]"
    by code_simp
  have q4: "\<exists>rows' rec pre. parseCSV (''x,y'' @ [LF] @ ''h2,SKU2'') = rows' @ [rec]
         \<and> join [COMMA] rec = pre @ ''h2,SKU2''"
    using inst by simp
  have q5: "\<exists>rows' rec pre. parseCSV (''x,y'' @ [LF] @ ''h2,'' @ [DQ] @ ''SKU 2'' @ [DQ])
           = rows' @ [rec]
         \<and> filter (\<lambda>x. x \<noteq> DQ) (join [COMMA] rec) = pre @ ''h2,SKU 2''"
    using inst by simp
  have q6: "parseCSV (''x,y'' @ [LF] @ ''h2,'' @ [DQ] @ ''SKU 2'' @ [DQ])
       = [[''x'', ''y''], [''h2'', ''SKU 2'']]"
    by code_simp
  have q7: "parseCSV (''x,'' @ [DQ] @ ''y'' @ [DQ] @ [LF]) = parseCSV (''x,'' @ [DQ] @ ''y'' @ [DQ])"
    using inst2 by simp
  from q1 q2 q3 q4 q5 q6 q7 show ?thesis by simp
qed

text \<open>
  Claim C6 as stated fails: trailing content that is an empty quoted field leaves no
  pending field and no started row, and yields no record, with a newline after it or
  without.
\<close>

theorem parseCSV_quoting_counterexample:
  "parseCSV (''a,b'' @ [LF] @ [DQ, DQ]) = [[''a'', ''b'']]
   \<and> parseCSV [DQ, DQ] = []
   \<and> parseCSV (''a,b'' @ [LF] @ [DQ, DQ] @ [LF]) = [[''a'', ''b'']]"
  by code_simp


text \<open>
  Claim C7, as the code has it. For every table of text cells in which no row is empty
  and no row is a single empty cell, writing each row with \<open>rowToCSV\<close>, joining the lines
  with a line feed and parsing the result with \<open>parseCSV\<close> gives the table back. The
  cells may hold any characters, commas, quotes, line feeds and carriage returns among
  them.
\<close>

theorem csv_round_trip:
  assumes "\<forall>r\<in>set t. r \<noteq> [] \<and> r \<noteq> [[]]"
  shows "parseCSV (join [LF] (map rowToCSV (map (map Str) t))) = t"
  using parse_loop_table [of t "[]"] assms by (simp add: parseCSV_def writable_def)

text \<open>
  The theorem at a table with commas, quotes, a line feed, a carriage return and an empty
  cell.
\<close>

theorem csv_round_trip_witness:
  "parseCSV (join [LF] (map rowToCSV (map (map Str)
      [[''a,b'', ''say '' @ [DQ] @ ''hi'' @ [DQ]], [''two'' @ [LF] @ ''lines'', []], [''x'' @ [CR]]])))
     = [[''a,b'', ''say '' @ [DQ] @ ''hi'' @ [DQ]], [''two'' @ [LF] @ ''lines'', []], [''x'' @ [CR]]]"
proof -
  have "\<forall>r\<in>set [[''a,b'', ''say '' @ [DQ] @ ''hi'' @ [DQ]], [''two'' @ [LF] @ ''lines'', []],
      [''x'' @ [CR]]]. r \<noteq> [] \<and> r \<noteq> [[]]"
    by simp
  from csv_round_trip [OF this] show ?thesis .
qed

text \<open>
  Claim C7 as stated fails: a row that is a single empty cell is written as an empty
  line, which the parser skips. The export produces such a table from the content
  \<open>,Google\<close>.
\<close>

theorem csv_round_trip_counterexample:
  "parseCSV (join [LF] (map rowToCSV (map (map Str) [[''Handle''], [[]]]))) = [[''Handle'']]
   \<and> parseCSV (join [LF] (map rowToCSV (map (map Str) [[''Handle''], [[]]])))
       \<noteq> [[''Handle''], [[]]]
   \<and> createExport sample_env (BufferFile ('',Google'' @ [LF])) (Some ''p.csv'')
       = ([ParseCSV, TransformData], Returned (Success ''p-export.csv'' [] 0 [[Str []]]))
   \<and> parseCSV [] = []"
  by code_simp





text \<open>
  Claim C9. On every successful export the filename is a string whose suffix is \<open>.xlsx\<close>
  or \<open>.csv\<close> case-insensitively, and the output filename is the filename with that
  suffix replaced by \<open>-export.xlsx\<close> or \<open>-export.csv\<close>; so for \<open>products.xlsx\<close>,
  \<open>products.csv\<close> and \<open>products.CSV\<close>. A name without the suffix is left as it is by the
  replacement.
\<close>

theorem export_filename:
  "(createExport e payload fname = (steps, Returned (Success f b n d)) \<longrightarrow>
      (\<exists>name. fname = Some name
         \<and> ((endsWith (toLowerCase name) ''.xlsx''
               \<and> f = take (length name - 5) name @ ''-export.xlsx'')
            \<or> (endsWith (toLowerCase name) ''.csv''
               \<and> f = take (length name - 4) name @ ''-export.csv''))))
   \<and> replace_suffix_i ''.xlsx'' ''-export.xlsx'' ''products.xlsx'' = ''products-export.xlsx''
   \<and> replace_suffix_i ''.csv'' ''-export.csv'' ''products.csv'' = ''products-export.csv''
   \<and> replace_suffix_i ''.csv'' ''-export.csv'' ''products.CSV'' = ''products-export.csv''
   \<and> (\<not> endsWith (toLowerCase other) ''.xlsx'' \<longrightarrow>
        replace_suffix_i ''.xlsx'' ''-export.xlsx'' other = other)
   \<and> (\<not> endsWith (toLowerCase other) ''.csv'' \<longrightarrow>
        replace_suffix_i ''.csv'' ''-export.csv'' other = other)"
proof -
  have A: "\<exists>name. fname = Some name
         \<and> ((endsWith (toLowerCase name) ''.xlsx''
               \<and> f = take (length name - 5) name @ ''-export.xlsx'')
            \<or> (endsWith (toLowerCase name) ''.csv''
               \<and> f = take (length name - 4) name @ ''-export.csv''))"
    if "createExport e payload fname = (steps, Returned (Success f b n d))"
  proof -
    from createExport_Success_generate [OF that] obtain name rows where
      n: "fname = Some name"
      and g: "snd (generate e (endsWith (toLowerCase name) ''.xlsx'') name (transformData rows))
               = Returned (Success f b n d)"
      and fmt: "endsWith (toLowerCase name) ''.xlsx'' \<or> endsWith (toLowerCase name) ''.csv''"
      by blast
    show ?thesis
    proof (cases "endsWith (toLowerCase name) ''.xlsx''")
      case True
      with g have "f = replace_suffix_i ''.xlsx'' ''-export.xlsx'' name"
        by (auto simp: generate_def split: if_splits option.splits)
      with True n show ?thesis by (simp add: replace_xlsx)
    next
      case False
      with fmt have c: "endsWith (toLowerCase name) ''.csv''" by simp
      from g False have "f = replace_suffix_i ''.csv'' ''-export.csv'' name"
        by (auto simp: generate_def split: if_splits option.splits)
      with c n show ?thesis by (simp add: replace_csv)
    qed
  qed
  have B: "replace_suffix_i ''.xlsx'' ''-export.xlsx'' ''products.xlsx'' = ''products-export.xlsx''"
    by code_simp
  have C: "replace_suffix_i ''.csv'' ''-export.csv'' ''products.csv'' = ''products-export.csv''"
    by code_simp
  have D: "replace_suffix_i ''.csv'' ''-export.csv'' ''products.CSV'' = ''products-export.csv''"
    by code_simp
  show ?thesis
    using A B C D by (simp add: replace_xlsx replace_csv)
qed

text \<open>The theorem at an export with the filename \<open>products.CSV\<close>.\<close>

theorem export_filename_witness:
  "createExport sample_env (BufferFile (''Handle,Variant SKU'' @ [LF] @ ''h1,SKU1''))
       (Some ''products.CSV'')
     = ([ParseCSV, TransformData],
        Returned (Success ''products-export.csv'' (''Handle,Variant SKU'' @ [LF] @ ''h1,SKU1'') 1
          [[Str ''Handle'', Str ''Variant SKU''], [Str ''h1'', Str ''SKU1'']]))
   \<and> endsWith (toLowerCase ''products.CSV'') ''.csv''
   \<and> ''products-export.csv'' = take (length ''products.CSV'' - 4) ''products.CSV'' @ ''-export.csv''"
proof -
  have run: "createExport sample_env (BufferFile (''Handle,Variant SKU'' @ [LF] @ ''h1,SKU1''))
       (Some ''products.CSV'')
     = ([ParseCSV, TransformData],
        Returned (Success ''products-export.csv'' (''Handle,Variant SKU'' @ [LF] @ ''h1,SKU1'') 1
          [[Str ''Handle'', Str ''Variant SKU''], [Str ''h1'', Str ''SKU1'']]))"
    by code_simp
  have nx: "\<not> endsWith (toLowerCase ''products.CSV'') ''.xlsx''" by code_simp
  from export_filename [where e = sample_env
      and payload = "BufferFile (''Handle,Variant SKU'' @ [LF] @ ''h1,SKU1'')"
      and fname = "Some ''products.CSV''" and steps = "[ParseCSV, TransformData]"
      and f = "''products-export.csv''" and b = "''Handle,Variant SKU'' @ [LF] @ ''h1,SKU1''"
      and n = 1 and d = "[[Str ''Handle'', Str ''Variant SKU''], [Str ''h1'', Str ''SKU1'']]"
      and other = "''notes.txt''"] run nx
  show ?thesis by auto
qed

text \<open>
  Claim C10. A successful result carries \<open>filename\<close>, \<open>buffer\<close>, \<open>rowCount\<close> and \<open>data\<close>.
  Then the input was normalised to a buffer and parsed to a table with at least one row;
  \<open>data\<close> is not empty, its first row is the pruned header row, \<open>rowCount\<close> is
  \<open>data.length - 1\<close> and is not negative, and the other rows of \<open>data\<close> are the
  pruned data rows with an SKU, in the order of the parsed input.
\<close>

theorem createExport_success_shape:
  assumes "createExport e file fname = (steps, Returned (Success f b n d))"
  shows "\<exists>name content rows.
           fname = Some name
         \<and> snd (fileBuffer_of e file) = Continue content
         \<and> snd (read_rows e (endsWith (toLowerCase name) ''.xlsx'')
                  (endsWith (toLowerCase name) ''.csv'') content) = Continue rows
         \<and> rows \<noteq> [] \<and> d \<noteq> []
         \<and> hd d = prune (hd rows) (hd rows)
         \<and> n = int (length d) - 1 \<and> 0 \<le> n
         \<and> tl d = filter (\<lambda>r. sku_text (variantSKUIndex (hd d)) r \<noteq> []) (map (prune (hd rows)) (tl rows))
         \<and> subseq (tl d) (map (prune (hd rows)) (tl rows))"
proof -
  from assms obtain name where n: "fname = Some name" and p: "provided file"
    by (auto simp: createExport_def split: if_splits option.splits)
  let ?x = "endsWith (toLowerCase name) ''.xlsx''"
  let ?c = "endsWith (toLowerCase name) ''.csv''"
  from assms n p obtain s1 content where fb: "fileBuffer_of e file = (s1, Continue content)"
    by (auto simp: createExport_def Let_def split: prod.splits flow.splits
          dest: fileBuffer_of_Return)
  from assms n p fb obtain s2 rows where rr: "read_rows e ?x ?c content = (s2, Continue rows)"
    by (auto simp: createExport_def Let_def split: prod.splits flow.splits
          dest: read_rows_Return)
  from assms n p fb rr have g: "snd (generate e ?x name (transformData rows)) = Returned (Success f b n d)"
    by (auto simp: createExport_def Let_def split: prod.splits)
  then have d: "d = transformData rows" and len: "transformData rows \<noteq> []" and nn: "n = int (length d) - 1"
    by (auto simp: generate_def split: if_splits option.splits)
  from len obtain header rest where rows: "rows = header # rest"
    by (cases rows) (auto simp: transformData_Nil)
  have "subseq (tl d) (map (prune (hd rows)) (tl rows))"
    by (simp add: d rows transformData_Cons)
  with n fb rr d nn rows show ?thesis
    by (simp add: transformData_Cons)
qed

text \<open>The theorem at the workbook of the sample environment.\<close>

theorem createExport_success_shape_witness:
  "createExport sample_env (BufferFile ''PK'') (Some ''book.xlsx'')
     = ([XlsxRead, TransformData, XlsxWrite],
        Returned (Success ''book-export.xlsx'' ''PK'' 1
          [[Str ''Handle'', Str ''Variant SKU''], [Str ''h1'', Num ''1001'']]))
   \<and> (\<exists>name content rows.
         Some ''book.xlsx'' = Some name
       \<and> snd (fileBuffer_of sample_env (BufferFile ''PK'')) = Continue content
       \<and> snd (read_rows sample_env (endsWith (toLowerCase name) ''.xlsx'')
                (endsWith (toLowerCase name) ''.csv'') content) = Continue rows
       \<and> rows \<noteq> []
       \<and> hd [[Str ''Handle'', Str ''Variant SKU''], [Str ''h1'', Num ''1001'']]
           = prune (hd rows) (hd rows)
       \<and> subseq (tl [[Str ''Handle'', Str ''Variant SKU''], [Str ''h1'', Num ''1001'']])
           (map (prune (hd rows)) (tl rows)))"
proof -
  have run: "createExport sample_env (BufferFile ''PK'') (Some ''book.xlsx'')
     = ([XlsxRead, TransformData, XlsxWrite],
        Returned (Success ''book-export.xlsx'' ''PK'' 1
          [[Str ''Handle'', Str ''Variant SKU''], [Str ''h1'', Num ''1001'']]))"
    by code_simp
  from createExport_success_shape [OF run] run show ?thesis by blast
qed

end

